theory Spec2Isabelle
  imports Main "HOL-Library.Word"
begin

unbundle bit_operations_syntax

section \<open>Text\<close>

text \<open>
  A Python \<open>str\<close> is a sequence of Unicode code points. A code point is a natural
  number below \<open>0x110000\<close>; the surrogate range \<open>0xD800..0xDFFF\<close> is allowed in a
  \<open>str\<close> (it only fails when the text is encoded).
\<close>

type_synonym ustr = "nat list"

definition ustr_of :: "string \<Rightarrow> ustr" where
  "ustr_of s = map of_char s"

text \<open>
  \<open>str.isalnum\<close> on one character. Below \<open>0x100\<close> the table is written out
  (digits, ASCII letters, and the Latin-1 letters and numeric characters of the Unicode
  database); above, the Unicode database is a parameter \<open>ucd\<close>.
\<close>

definition isalnum :: "(nat \<Rightarrow> bool) \<Rightarrow> nat \<Rightarrow> bool" where
  "isalnum ucd c =
     (if c < 256 then
        (48 \<le> c \<and> c \<le> 57) \<or> (65 \<le> c \<and> c \<le> 90) \<or> (97 \<le> c \<and> c \<le> 122) \<or>
        c = 170 \<or> c = 178 \<or> c = 179 \<or> c = 181 \<or> c = 185 \<or> c = 186 \<or>
        (188 \<le> c \<and> c \<le> 190) \<or> (192 \<le> c \<and> c \<le> 214) \<or>
        (216 \<le> c \<and> c \<le> 246) \<or> (248 \<le> c \<and> c \<le> 255)
      else ucd c)"

section \<open>Output file names\<close>

text \<open>
  \<open>c.isalnum() or c in (' ', '-', '_')\<close>: the characters \<open>batch_generate\<close> keeps.
\<close>

definition keeps :: "(nat \<Rightarrow> bool) \<Rightarrow> nat \<Rightarrow> bool" where
  "keeps ucd c = (isalnum ucd c \<or> c = 32 \<or> c = 45 \<or> c = 95)"

text \<open>
  \<open>"".join(c if c.isalnum() or c in (' ', '-', '_') else '_' for c in attendee)\<close>:
  every element of the generator is a one-character string.
\<close>

definition safe_name :: "(nat \<Rightarrow> bool) \<Rightarrow> ustr \<Rightarrow> ustr" where
  "safe_name ucd attendee =
     concat (map (\<lambda>c. if keeps ucd c then [c] else ustr_of ''_'') attendee)"

text \<open>
  \<open>os.path.join(a, b)\<close> with two arguments, as \<open>posixpath\<close> has it: an absolute \<open>b\<close>
  replaces \<open>a\<close>; an empty \<open>a\<close> or one that ends with the separator takes \<open>b\<close>
  directly; otherwise a separator is put between them.
\<close>

definition os_path_join :: "ustr \<Rightarrow> ustr \<Rightarrow> ustr" where
  "os_path_join a b =
     (if b \<noteq> [] \<and> hd b = 47 then b
      else if a = [] \<or> last a = 47 then a @ b
      else a @ [47] @ b)"

text \<open>The extension chosen by the flag \<open>save_as_pdf\<close>.\<close>

definition extension :: "bool \<Rightarrow> ustr" where
  "extension save_as_pdf = (if save_as_pdf then ustr_of ''.pdf'' else ustr_of ''.png'')"

text \<open>\<open>f"{safe_name}.pdf"\<close> or \<open>f"{safe_name}.png"\<close>.\<close>

definition file_name :: "(nat \<Rightarrow> bool) \<Rightarrow> ustr \<Rightarrow> bool \<Rightarrow> ustr" where
  "file_name ucd attendee save_as_pdf = safe_name ucd attendee @ extension save_as_pdf"

definition output_path :: "(nat \<Rightarrow> bool) \<Rightarrow> ustr \<Rightarrow> ustr \<Rightarrow> bool \<Rightarrow> ustr" where
  "output_path ucd output_dir attendee save_as_pdf =
     os_path_join output_dir (file_name ucd attendee save_as_pdf)"

text \<open>A Unicode database with nothing alphanumeric above Latin-1, for examples.\<close>

definition latin1_only :: "nat \<Rightarrow> bool" where
  "latin1_only c = False"

text \<open>The name \<open>J\<ouml>hn/Doe*1\<close>: its second character is U+00F6.\<close>

definition john_doe :: ustr where
  "john_doe = [74, 246, 104, 110, 47, 68, 111, 101, 42, 49]"

section \<open>Errors\<close>

text \<open>
  The exceptions that the modelled code can raise, as values. \<open>DrawError\<close> stands for
  whatever \<open>ImageDraw.text\<close> raises when it cannot draw (a font without the glyphs, a
  fill that does not suit the mode of the image).
\<close>

datatype error =
    UnicodeEncodeError
  | ValueError
  | DataOverflowError
  | DrawError
  | UnidentifiedImageError
  | FileNotFoundError
  | FileExistsError
  | NotADirectoryError
  | IsADirectoryError
  | PermissionError

section \<open>UTF-8\<close>

text \<open>
  \<open>str.encode()\<close> encodes to UTF-8 and raises \<open>UnicodeEncodeError\<close> on a surrogate
  code point. A number from \<open>0x110000\<close> on is not a code point and has no encoding.
\<close>

definition utf8_char :: "nat \<Rightarrow> (8 word) list option" where
  "utf8_char c =
     (if c < 0x80 then Some [of_nat c]
      else if c < 0x800 then Some [of_nat (0xC0 + c div 64), of_nat (0x80 + c mod 64)]
      else if 0xD800 \<le> c \<and> c < 0xE000 then None
      else if c < 0x10000 then
        Some [of_nat (0xE0 + c div 4096), of_nat (0x80 + (c div 64) mod 64),
              of_nat (0x80 + c mod 64)]
      else if c < 0x110000 then
        Some [of_nat (0xF0 + c div 262144), of_nat (0x80 + (c div 4096) mod 64),
              of_nat (0x80 + (c div 64) mod 64), of_nat (0x80 + c mod 64)]
      else None)"

fun encode :: "ustr \<Rightarrow> error + (8 word) list" where
  "encode [] = Inr []"
| "encode (c # cs) =
     (case utf8_char c of
        None \<Rightarrow> Inl UnicodeEncodeError
      | Some bs \<Rightarrow> (case encode cs of Inl e \<Rightarrow> Inl e | Inr rest \<Rightarrow> Inr (bs @ rest)))"

text \<open>
  A code point that is not a surrogate; a text of such code points is the one that
  \<open>encode\<close> succeeds on.
\<close>

definition scalar :: "nat \<Rightarrow> bool" where
  "scalar c = (c < 0xD800 \<or> (0xE000 \<le> c \<and> c < 0x110000))"

definition encodable :: "ustr \<Rightarrow> bool" where
  "encodable s = list_all scalar s"

section \<open>SHA-256\<close>

text \<open>\<open>hashlib.sha256(data).hexdigest()\<close>, after FIPS 180-4.\<close>

type_synonym w32 = "32 word"

type_synonym sha_state = "w32 \<times> w32 \<times> w32 \<times> w32 \<times> w32 \<times> w32 \<times> w32 \<times> w32"

definition Ch :: "w32 \<Rightarrow> w32 \<Rightarrow> w32 \<Rightarrow> w32" where
  "Ch x y z = (x AND y) XOR (NOT x AND z)"

definition Maj :: "w32 \<Rightarrow> w32 \<Rightarrow> w32 \<Rightarrow> w32" where
  "Maj x y z = (x AND y) XOR (x AND z) XOR (y AND z)"

definition bsig0 :: "w32 \<Rightarrow> w32" where
  "bsig0 x = word_rotr 2 x XOR word_rotr 13 x XOR word_rotr 22 x"

definition bsig1 :: "w32 \<Rightarrow> w32" where
  "bsig1 x = word_rotr 6 x XOR word_rotr 11 x XOR word_rotr 25 x"

definition ssig0 :: "w32 \<Rightarrow> w32" where
  "ssig0 x = word_rotr 7 x XOR word_rotr 18 x XOR drop_bit 3 x"

definition ssig1 :: "w32 \<Rightarrow> w32" where
  "ssig1 x = word_rotr 17 x XOR word_rotr 19 x XOR drop_bit 10 x"

definition sha_K :: "w32 list" where
  "sha_K =
     [0x428A2F98, 0x71374491, 0xB5C0FBCF, 0xE9B5DBA5, 0x3956C25B, 0x59F111F1,
      0x923F82A4, 0xAB1C5ED5, 0xD807AA98, 0x12835B01, 0x243185BE, 0x550C7DC3,
      0x72BE5D74, 0x80DEB1FE, 0x9BDC06A7, 0xC19BF174, 0xE49B69C1, 0xEFBE4786,
      0x0FC19DC6, 0x240CA1CC, 0x2DE92C6F, 0x4A7484AA, 0x5CB0A9DC, 0x76F988DA,
      0x983E5152, 0xA831C66D, 0xB00327C8, 0xBF597FC7, 0xC6E00BF3, 0xD5A79147,
      0x06CA6351, 0x14292967, 0x27B70A85, 0x2E1B2138, 0x4D2C6DFC, 0x53380D13,
      0x650A7354, 0x766A0ABB, 0x81C2C92E, 0x92722C85, 0xA2BFE8A1, 0xA81A664B,
      0xC24B8B70, 0xC76C51A3, 0xD192E819, 0xD6990624, 0xF40E3585, 0x106AA070,
      0x19A4C116, 0x1E376C08, 0x2748774C, 0x34B0BCB5, 0x391C0CB3, 0x4ED8AA4A,
      0x5B9CCA4F, 0x682E6FF3, 0x748F82EE, 0x78A5636F, 0x84C87814, 0x8CC70208,
      0x90BEFFFA, 0xA4506CEB, 0xBEF9A3F7, 0xC67178F2]"

definition sha_H0 :: sha_state where
  "sha_H0 =
     (0x6A09E667, 0xBB67AE85, 0x3C6EF372, 0xA54FF53A,
      0x510E527F, 0x9B05688C, 0x1F83D9AB, 0x5BE0CD19)"

text \<open>
  Padding: the byte \<open>0x80\<close>, zero bytes up to 56 modulo 64, then the length in bits as
  a 64-bit big-endian number.
\<close>

definition be_bytes :: "64 word \<Rightarrow> (8 word) list" where
  "be_bytes n = map (\<lambda>i. ucast (drop_bit (8 * i) n)) (rev [0..<8])"

definition sha_pad :: "(8 word) list \<Rightarrow> (8 word) list" where
  "sha_pad m =
     m @ [0x80] @ replicate ((119 - length m mod 64) mod 64) 0
       @ be_bytes (of_nat (8 * length m))"

definition be_word :: "(8 word) list \<Rightarrow> w32" where
  "be_word bs = foldl (\<lambda>acc b. push_bit 8 acc OR ucast b) 0 bs"

fun words_of :: "nat \<Rightarrow> (8 word) list \<Rightarrow> w32 list" where
  "words_of 0 bs = []"
| "words_of (Suc n) bs = be_word (take 4 bs) # words_of n (drop 4 bs)"

text \<open>The message schedule: the 16 words of the block, extended by 48 more.\<close>

fun sha_extend :: "nat \<Rightarrow> w32 list \<Rightarrow> w32 list" where
  "sha_extend 0 w = w"
| "sha_extend (Suc n) w =
     (let t = length w
      in sha_extend n
           (w @ [ssig1 (w ! (t - 2)) + w ! (t - 7) + ssig0 (w ! (t - 15)) + w ! (t - 16)]))"

definition sha_round :: "w32 \<times> w32 \<Rightarrow> sha_state \<Rightarrow> sha_state" where
  "sha_round kw s =
     (case s of (a, b, c, d, e, f, g, h) \<Rightarrow>
        let t1 = h + bsig1 e + Ch e f g + fst kw + snd kw;
            t2 = bsig0 a + Maj a b c
        in (t1 + t2, a, b, c, d + t1, e, f, g))"

definition sha_add :: "sha_state \<Rightarrow> sha_state \<Rightarrow> sha_state" where
  "sha_add s t =
     (case s of (a, b, c, d, e, f, g, h) \<Rightarrow>
      case t of (a', b', c', d', e', f', g', h') \<Rightarrow>
        (a + a', b + b', c + c', d + d', e + e', f + f', g + g', h + h'))"

definition sha_compress :: "sha_state \<Rightarrow> (8 word) list \<Rightarrow> sha_state" where
  "sha_compress s block =
     sha_add s (fold sha_round (zip sha_K (sha_extend 48 (words_of 16 block))) s)"

fun sha_blocks :: "nat \<Rightarrow> sha_state \<Rightarrow> (8 word) list \<Rightarrow> sha_state" where
  "sha_blocks 0 s bs = s"
| "sha_blocks (Suc n) s bs = sha_blocks n (sha_compress s (take 64 bs)) (drop 64 bs)"

definition sha256 :: "(8 word) list \<Rightarrow> sha_state" where
  "sha256 m = (let p = sha_pad m in sha_blocks (length p div 64) sha_H0 p)"

text \<open>Lowercase hexadecimal, eight digits for each of the eight words.\<close>

definition hexdigit :: "nat \<Rightarrow> nat" where
  "hexdigit n = (if n < 10 then 48 + n else 87 + n)"

definition hex_word :: "w32 \<Rightarrow> ustr" where
  "hex_word w = map (\<lambda>i. hexdigit (unat (drop_bit (4 * i) w AND 0xF))) (rev [0..<8])"

definition hexdigest :: "sha_state \<Rightarrow> ustr" where
  "hexdigest s =
     (case s of (a, b, c, d, e, f, g, h) \<Rightarrow>
        concat (map hex_word [a, b, c, d, e, f, g, h]))"

text \<open>A character of \<open>0123456789abcdef\<close>.\<close>

definition lower_hex :: "nat \<Rightarrow> bool" where
  "lower_hex c = ((48 \<le> c \<and> c \<le> 57) \<or> (97 \<le> c \<and> c \<le> 102))"

section \<open>Dates and times\<close>

text \<open>
  A \<open>datetime\<close> value. Python's type keeps \<open>1 \<le> year \<le> 9999\<close>, \<open>1 \<le> month \<le> 12\<close>,
  \<open>1 \<le> day \<le> 31\<close>, \<open>hour < 24\<close>, \<open>minute < 60\<close>, \<open>second < 60\<close> and
  \<open>microsecond < 1000000\<close>, so every field fits the width it is printed with.
\<close>

record datetime =
  year :: nat
  month :: nat
  day :: nat
  hour :: nat
  minute :: nat
  second :: nat
  microsecond :: nat

definition valid_datetime :: "datetime \<Rightarrow> bool" where
  "valid_datetime t =
     (1 \<le> year t \<and> year t \<le> 9999 \<and> 1 \<le> month t \<and> month t \<le> 12 \<and>
      1 \<le> day t \<and> day t \<le> 31 \<and> hour t < 24 \<and> minute t < 60 \<and> second t < 60 \<and>
      microsecond t < 1000000)"

text \<open>A number printed in decimal with \<open>k\<close> digits, zero-padded.\<close>

definition zpad :: "nat \<Rightarrow> nat \<Rightarrow> ustr" where
  "zpad k n = map (\<lambda>i. 48 + (n div 10 ^ i) mod 10) (rev [0..<k])"

text \<open>
  \<open>datetime.isoformat()\<close>: \<open>YYYY-MM-DDTHH:MM:SS.ffffff\<close>, and without the fraction
  when the microsecond field is zero.
\<close>

definition isoformat :: "datetime \<Rightarrow> ustr" where
  "isoformat t =
     zpad 4 (year t) @ ustr_of ''-'' @ zpad 2 (month t) @ ustr_of ''-'' @ zpad 2 (day t)
       @ ustr_of ''T'' @ zpad 2 (hour t) @ ustr_of '':'' @ zpad 2 (minute t)
       @ ustr_of '':'' @ zpad 2 (second t)
       @ (if microsecond t = 0 then [] else ustr_of ''.'' @ zpad 6 (microsecond t))"

text \<open>
  \<open>strftime("%Y-%m-%d %H:%M:%S")\<close>. The year is printed with four digits, which is what
  every platform does from the year 1000 on.
\<close>

definition strftime :: "datetime \<Rightarrow> ustr" where
  "strftime t =
     zpad 4 (year t) @ ustr_of ''-'' @ zpad 2 (month t) @ ustr_of ''-'' @ zpad 2 (day t)
       @ ustr_of '' '' @ zpad 2 (hour t) @ ustr_of '':'' @ zpad 2 (minute t)
       @ ustr_of '':'' @ zpad 2 (second t)"

section \<open>JSON\<close>

text \<open>
  \<open>json.dumps\<close> of a dictionary of strings, with the defaults of the library
  (\<open>ensure_ascii=True\<close>, separators \<open>", "\<close> and \<open>": "\<close>). The dictionary is an
  association list in insertion order. Printable ASCII is written as it is; the quote
  and the backslash are escaped; everything else becomes a short escape or
  \<open>\uXXXX\<close>, with a surrogate pair above the basic plane.
\<close>

definition hex4 :: "nat \<Rightarrow> ustr" where
  "hex4 n = map (\<lambda>i. hexdigit ((n div 16 ^ i) mod 16)) (rev [0..<4])"

definition json_escape :: "nat \<Rightarrow> ustr" where
  "json_escape c =
     (if c = 34 then [92, 34]
      else if c = 92 then [92, 92]
      else if c = 10 then [92, 110]
      else if c = 13 then [92, 114]
      else if c = 9 then [92, 116]
      else if c = 12 then [92, 102]
      else if c = 8 then [92, 98]
      else if 32 \<le> c \<and> c \<le> 126 then [c]
      else if c < 0x10000 then [92, 117] @ hex4 c
      else
        (let v = c - 0x10000
         in [92, 117] @ hex4 (0xD800 + (v div 1024) mod 1024)
              @ [92, 117] @ hex4 (0xDC00 + v mod 1024)))"

definition json_string :: "ustr \<Rightarrow> ustr" where
  "json_string s = [34] @ concat (map json_escape s) @ [34]"

definition json_item :: "ustr \<times> ustr \<Rightarrow> ustr" where
  "json_item kv = json_string (fst kv) @ ustr_of '': '' @ json_string (snd kv)"

fun str_join :: "ustr \<Rightarrow> ustr list \<Rightarrow> ustr" where
  "str_join sep [] = []"
| "str_join sep [x] = x"
| "str_join sep (x # y # ys) = x @ sep @ str_join sep (y # ys)"

definition json_dumps :: "(ustr \<times> ustr) list \<Rightarrow> ustr" where
  "json_dumps items =
     ustr_of ''{'' @ str_join (ustr_of '', '') (map json_item items) @ ustr_of ''}''"

text \<open>
  \<open>json.loads\<close> on an object whose values are strings, after the scanner of the
  library: \<open>scanstring\<close> reads a string from behind its opening quote up to the
  closing one, \<open>parse_pairs\<close> reads the members of an object from behind the opening
  quote of the first key. A value that is not a string is outside this fragment and
  gives \<open>None\<close>, as a malformed text does.
\<close>

definition unhex :: "nat \<Rightarrow> nat option" where
  "unhex c =
     (if 48 \<le> c \<and> c \<le> 57 then Some (c - 48)
      else if 97 \<le> c \<and> c \<le> 102 then Some (c - 87)
      else if 65 \<le> c \<and> c \<le> 70 then Some (c - 55)
      else None)"

definition decode_u4 :: "ustr \<Rightarrow> nat option" where
  "decode_u4 s =
     (case map unhex s of
        [Some a, Some b, Some c, Some d] \<Rightarrow> Some (((a * 16 + b) * 16 + c) * 16 + d)
      | _ \<Rightarrow> None)"

text \<open>
  The escape behind a backslash: the code point it stands for and the number of
  characters it takes. A high surrogate followed by an escaped low surrogate is one
  code point.
\<close>

definition scan_escape :: "ustr \<Rightarrow> (nat \<times> nat) option" where
  "scan_escape s =
     (case s of
        [] \<Rightarrow> None
      | e # r \<Rightarrow>
          if e = 117 then
            (case decode_u4 (take 4 r) of
               None \<Rightarrow> None
             | Some u \<Rightarrow>
                 if 0xD800 \<le> u \<and> u \<le> 0xDBFF \<and> take 2 (drop 4 r) = [92, 117] then
                   (case decode_u4 (take 4 (drop 6 r)) of
                      None \<Rightarrow> None
                    | Some u2 \<Rightarrow>
                        if 0xDC00 \<le> u2 \<and> u2 \<le> 0xDFFF
                        then Some (0x10000 + ((u - 0xD800) * 1024 + (u2 - 0xDC00)), 11)
                        else Some (u, 5))
                 else Some (u, 5))
          else if e = 34 then Some (34, 1)
          else if e = 92 then Some (92, 1)
          else if e = 47 then Some (47, 1)
          else if e = 98 then Some (8, 1)
          else if e = 102 then Some (12, 1)
          else if e = 110 then Some (10, 1)
          else if e = 114 then Some (13, 1)
          else if e = 116 then Some (9, 1)
          else None)"

function scanstring :: "ustr \<Rightarrow> (ustr \<times> ustr) option" where
  "scanstring [] = None"
| "scanstring (c # cs) =
     (if c = 34 then Some ([], cs)
      else if c = 92 then
        (case scan_escape cs of
           None \<Rightarrow> None
         | Some (u, k) \<Rightarrow>
             (case scanstring (drop k cs) of
                None \<Rightarrow> None
              | Some (s, rest) \<Rightarrow> Some (u # s, rest)))
      else if c < 32 then None
      else
        (case scanstring cs of
           None \<Rightarrow> None
         | Some (s, rest) \<Rightarrow> Some (c # s, rest)))"
  by pat_completeness auto
termination
  by (relation "measure length") auto

definition skip_ws :: "ustr \<Rightarrow> ustr" where
  "skip_ws s = dropWhile (\<lambda>c. c = 32 \<or> c = 9 \<or> c = 10 \<or> c = 13) s"

text \<open>One member \<open>key": "value"\<close> and the separator behind it.\<close>

definition parse_member :: "ustr \<Rightarrow> ((ustr \<times> ustr) \<times> nat \<times> ustr) option" where
  "parse_member s =
     (case scanstring s of
        None \<Rightarrow> None
      | Some (key, r1) \<Rightarrow>
          (case skip_ws r1 of
             [] \<Rightarrow> None
           | c # r2 \<Rightarrow>
               if c \<noteq> 58 then None
               else
                 (case skip_ws r2 of
                    [] \<Rightarrow> None
                  | q # r3 \<Rightarrow>
                      if q \<noteq> 34 then None
                      else
                        (case scanstring r3 of
                           None \<Rightarrow> None
                         | Some (val, r4) \<Rightarrow>
                             (case skip_ws r4 of
                                [] \<Rightarrow> None
                              | d # r5 \<Rightarrow> Some ((key, val), d, r5))))))"

fun parse_pairs :: "nat \<Rightarrow> ustr \<Rightarrow> ((ustr \<times> ustr) list \<times> ustr) option" where
  "parse_pairs 0 s = None"
| "parse_pairs (Suc n) s =
     (case parse_member s of
        None \<Rightarrow> None
      | Some (kv, d, r5) \<Rightarrow>
          if d = 125 then Some ([kv], r5)
          else if d \<noteq> 44 then None
          else
            (case skip_ws r5 of
               [] \<Rightarrow> None
             | q # r6 \<Rightarrow>
                 if q \<noteq> 34 then None
                 else
                   (case parse_pairs n r6 of
                      None \<Rightarrow> None
                    | Some (kvs, r7) \<Rightarrow> Some (kv # kvs, r7))))"

text \<open>
  The whole text is one object; nothing but white space may follow it. Every member
  takes at least one character, so the length of the text is fuel enough.
\<close>

definition json_loads :: "ustr \<Rightarrow> (ustr \<times> ustr) list option" where
  "json_loads s =
     (case skip_ws s of
        [] \<Rightarrow> None
      | b # r \<Rightarrow>
          if b \<noteq> 123 then None
          else
            (case skip_ws r of
               [] \<Rightarrow> None
             | q # r1 \<Rightarrow>
                 if q = 125 then (if skip_ws r1 = [] then Some [] else None)
                 else if q \<noteq> 34 then None
                 else
                   (case parse_pairs (length s) r1 of
                      None \<Rightarrow> None
                    | Some (kvs, r2) \<Rightarrow> if skip_ws r2 = [] then Some kvs else None)))"

text \<open>A character that \<open>json.dumps\<close> writes as it is.\<close>

definition plain :: "nat \<Rightarrow> bool" where
  "plain c = (32 \<le> c \<and> c \<le> 126 \<and> c \<noteq> 34 \<and> c \<noteq> 92)"

section \<open>Images, fonts and the environment\<close>

text \<open>
  What the imaging libraries compute is not part of the program. A pixel buffer is
  kept as the history that produced it: the picture decoded from a file, the QR symbol
  of a text, and the operations applied since. Two buffers with the same history have
  the same pixels.
\<close>

datatype font = TrueType ustr int | DefaultFont

type_synonym pos = "int \<times> int"

type_synonym colour = "int \<times> int \<times> int"

datatype pixels =
    Raster nat
  | QrSymbol ustr
  | Resized pixels int int
  | Converted pixels ustr
  | WithText pixels pos ustr font colour
  | WithPaste pixels pixels pos

record image =
  width :: int
  height :: int
  mode :: ustr
  pixels :: pixels

datatype file_data = ImageFile image | PdfFile image | OtherFile

text \<open>
  The environment: the Unicode database above Latin-1, the readings of the system
  clock in the order they are taken, whether \<open>ImageFont.truetype\<close> loads a file at a
  size (and the text of its exception otherwise), whether \<open>ImageDraw.text\<close> can draw a
  text (the mode of the image, the font, the text, the fill), the version that
  \<open>qrcode\<close> fits a text into (\<open>None\<close> when it is over the capacity of version 40), and
  whether the file system lets a path be created or written.
\<close>

record env =
  ucd :: "nat \<Rightarrow> bool"
  clock :: "nat \<Rightarrow> datetime"
  truetype_ok :: "ustr \<Rightarrow> int \<Rightarrow> bool"
  load_error :: "ustr option \<Rightarrow> int \<Rightarrow> ustr"
  draw_ok :: "ustr \<Rightarrow> font \<Rightarrow> ustr \<Rightarrow> colour \<Rightarrow> bool"
  qr_best_fit :: "ustr \<Rightarrow> nat option"
  writable :: "ustr \<Rightarrow> bool"

text \<open>The attributes of a \<open>CertificateGenerator\<close>; \<open>template\<close> is the address of the image.\<close>

record generator =
  template :: nat
  event_name :: ustr
  template_width :: int
  template_height :: int

text \<open>
  The state: the generator object, the store of image objects (addresses below
  \<open>fresh\<close> are in use), the number of clock readings taken, the lines printed, and the
  file system (directories by their path without a trailing separator, files by path).
\<close>

record world =
  gen :: generator
  heap :: "nat \<Rightarrow> image"
  fresh :: nat
  ticks :: nat
  stdout :: "ustr list"
  dirs :: "ustr set"
  files :: "ustr \<rightharpoonup> file_data"

text \<open>The arguments of \<open>generate_certificate\<close> that a batch shares.\<close>

record request =
  name_position :: pos
  font_path :: "ustr option"
  font_size :: int
  text_color :: colour
  hash_position :: "pos option"
  qr_position :: "pos option"
  qr_size :: int

text \<open>One entry of the list that \<open>batch_generate\<close> returns.\<close>

record cert_info =
  name :: ustr
  hash :: ustr
  path :: ustr

section \<open>Library calls on the state\<close>

text \<open>\<open>datetime.now()\<close>: the next reading of the clock.\<close>

definition now :: "env \<Rightarrow> world \<Rightarrow> datetime \<times> world" where
  "now e w = (clock e (ticks w), w\<lparr>ticks := Suc (ticks w)\<rparr>)"

text \<open>A new image object.\<close>

definition alloc :: "image \<Rightarrow> world \<Rightarrow> nat \<times> world" where
  "alloc im w = (fresh w, w\<lparr>heap := (heap w)(fresh w := im), fresh := Suc (fresh w)\<rparr>)"

text \<open>\<open>Image.copy()\<close>: a new object with the same size, mode and pixels.\<close>

definition image_copy :: "nat \<Rightarrow> world \<Rightarrow> nat \<times> world" where
  "image_copy a w = alloc (heap w a) w"

text \<open>\<open>Image.open(path)\<close>.\<close>

definition image_open :: "ustr \<Rightarrow> world \<Rightarrow> error + nat \<times> world" where
  "image_open p w =
     (case files w p of
        None \<Rightarrow> Inl FileNotFoundError
      | Some (ImageFile im) \<Rightarrow> Inr (alloc im w)
      | Some _ \<Rightarrow> Inl UnidentifiedImageError)"

text \<open>
  \<open>ImageFont.truetype(font_path, size)\<close>: \<open>None\<close> stands for the exception. Without a
  path there is nothing to read, so the call fails.
\<close>

definition truetype :: "env \<Rightarrow> ustr option \<Rightarrow> int \<Rightarrow> font option" where
  "truetype e fp sz =
     (case fp of
        None \<Rightarrow> None
      | Some p \<Rightarrow> if truetype_ok e p sz then Some (TrueType p sz) else None)"

text \<open>\<open>ImageDraw.Draw(im).text(xy, text, font=font, fill=fill)\<close>: draws into the object.\<close>

definition draw_text ::
  "env \<Rightarrow> nat \<Rightarrow> pos \<Rightarrow> ustr \<Rightarrow> font \<Rightarrow> colour \<Rightarrow> world \<Rightarrow> error + world" where
  "draw_text e a xy txt f fill w =
     (let im = heap w a
      in if draw_ok e (mode im) f txt fill
         then Inr (w\<lparr>heap := (heap w)(a := im\<lparr>pixels := WithText (pixels im) xy txt f fill\<rparr>)\<rparr>)
         else Inl DrawError)"

text \<open>\<open>Image.resize(size)\<close>: a new image; a side that is not positive is refused.\<close>

definition resize :: "image \<Rightarrow> int \<times> int \<Rightarrow> error + image" where
  "resize im sz =
     (if fst sz \<le> 0 \<or> snd sz \<le> 0 then Inl ValueError
      else Inr (im\<lparr>width := fst sz, height := snd sz,
                   pixels := Resized (pixels im) (fst sz) (snd sz)\<rparr>))"

text \<open>\<open>Image.paste(src, box)\<close>: writes into the object; its size does not change.\<close>

definition paste :: "nat \<Rightarrow> image \<Rightarrow> pos \<Rightarrow> world \<Rightarrow> world" where
  "paste a src box w =
     (let im = heap w a
      in w\<lparr>heap := (heap w)(a := im\<lparr>pixels := WithPaste (pixels im) (pixels src) box\<rparr>)\<rparr>)"

text \<open>\<open>Image.convert(mode)\<close>: a new image.\<close>

definition convert :: "image \<Rightarrow> ustr \<Rightarrow> image" where
  "convert im m = im\<lparr>mode := m, pixels := Converted (pixels im) m\<rparr>"

text \<open>\<open>str.upper()\<close> on ASCII text.\<close>

definition upper :: "ustr \<Rightarrow> ustr" where
  "upper s = map (\<lambda>c. if 97 \<le> c \<and> c \<le> 122 then c - 32 else c) s"

section \<open>The file system\<close>

definition rstrip_sep :: "ustr \<Rightarrow> ustr" where
  "rstrip_sep s = rev (dropWhile (\<lambda>c. c = 47) (rev s))"

text \<open>A directory path without its trailing separators; a path of separators only is the root.\<close>

definition strip_dir :: "ustr \<Rightarrow> ustr" where
  "strip_dir p = (if list_all (\<lambda>c. c = 47) p then p else rstrip_sep p)"

text \<open>\<open>os.path.dirname\<close>.\<close>

definition dirname :: "ustr \<Rightarrow> ustr" where
  "dirname p = strip_dir (rev (dropWhile (\<lambda>c. c \<noteq> 47) (rev p)))"

text \<open>The directories above a path, outermost first.\<close>

definition ancestors :: "ustr \<Rightarrow> ustr list" where
  "ancestors p = map (\<lambda>i. strip_dir (take (Suc i) p)) (filter (\<lambda>i. p ! i = 47) [0..<length p])"

text \<open>
  \<open>os.makedirs(path, exist_ok=True)\<close>: the directory and those above it exist
  afterwards; one that exists already is left as it is. It fails on the empty path,
  when a file is in the way, and when a missing directory may not be created.
\<close>

definition makedirs :: "env \<Rightarrow> ustr \<Rightarrow> world \<Rightarrow> error + world" where
  "makedirs e p w =
     (let chain = ancestors p @ [strip_dir p]
      in if p = [] then Inl FileNotFoundError
         else if list_ex (\<lambda>d. files w d \<noteq> None) (ancestors p) then Inl NotADirectoryError
         else if files w (strip_dir p) \<noteq> None then Inl FileExistsError
         else if list_ex (\<lambda>d. d \<notin> dirs w \<and> \<not> writable e d) chain then Inl PermissionError
         else Inr (w\<lparr>dirs := dirs w \<union> set chain\<rparr>))"

text \<open>
  Opening a path for writing and writing the data: the directory of the path must
  exist (the empty one is the current directory), the path must not be a directory, and
  it must be writable.
\<close>

definition write_file :: "env \<Rightarrow> ustr \<Rightarrow> file_data \<Rightarrow> world \<Rightarrow> error + world" where
  "write_file e p d w =
     (if dirname p \<noteq> [] \<and> dirname p \<notin> dirs w then Inl FileNotFoundError
      else if p \<in> dirs w then Inl IsADirectoryError
      else if \<not> writable e p then Inl PermissionError
      else Inr (w\<lparr>files := (files w)(p \<mapsto> d)\<rparr>))"

section \<open>The certificate generator\<close>

text \<open>\<open>CertificateGenerator.__init__\<close>.\<close>

definition init :: "ustr \<Rightarrow> ustr \<Rightarrow> world \<Rightarrow> error + world" where
  "init template_path ev w =
     (case image_open template_path w of
        Inl err \<Rightarrow> Inl err
      | Inr (a, w1) \<Rightarrow>
          Inr (w1\<lparr>gen := \<lparr>template = a, event_name = ev,
                           template_width = width (heap w1 a),
                           template_height = height (heap w1 a)\<rparr>\<rparr>))"

text \<open>\<open>generate_hash\<close>.\<close>

definition generate_hash :: "env \<Rightarrow> ustr \<Rightarrow> world \<Rightarrow> (error + ustr) \<times> world" where
  "generate_hash e attendee_name w =
     (case now e w of
        (timestamp, w1) \<Rightarrow>
          (let data = attendee_name @ event_name (gen w1) @ isoformat timestamp
           in case encode data of
                Inl err \<Rightarrow> (Inl err, w1)
              | Inr bytes \<Rightarrow> (Inr (hexdigest (sha256 bytes)), w1)))"

text \<open>The dictionary \<open>verification_data\<close> of \<open>generate_qr_code\<close>.\<close>

definition verification_data :: "ustr \<Rightarrow> ustr \<Rightarrow> ustr \<Rightarrow> datetime \<Rightarrow> (ustr \<times> ustr) list" where
  "verification_data cert_hash attendee_name ev t =
     [(ustr_of ''hash'', cert_hash),
      (ustr_of ''name'', attendee_name),
      (ustr_of ''event'', ev),
      (ustr_of ''date'', strftime t)]"

text \<open>
  \<open>generate_qr_code\<close>: version fitted from 1, box size 10, border 2, so the symbol has
  \<open>17 + 4 * version + 2 * 2\<close> modules a side; black on white gives the mode \<open>1\<close>.
\<close>

definition generate_qr_code ::
  "env \<Rightarrow> ustr \<Rightarrow> ustr \<Rightarrow> world \<Rightarrow> (error + image) \<times> world" where
  "generate_qr_code e attendee_name cert_hash w =
     (case now e w of
        (t, w1) \<Rightarrow>
          (let txt = json_dumps (verification_data cert_hash attendee_name (event_name (gen w1)) t)
           in case qr_best_fit e txt of
                None \<Rightarrow> (Inl DataOverflowError, w1)
              | Some v \<Rightarrow>
                  (Inr \<lparr>width = (17 + 4 * int v + 2 * 2) * 10,
                        height = (17 + 4 * int v + 2 * 2) * 10,
                        mode = ustr_of ''1'', pixels = QrSymbol txt\<rparr>, w1)))"

text \<open>
  The \<open>try\<close> block of \<open>generate_certificate\<close>: both fonts from the file, or the
  default font for both and a printed line when either load raises.
\<close>

definition load_fonts :: "env \<Rightarrow> request \<Rightarrow> world \<Rightarrow> (font \<times> font) \<times> world" where
  "load_fonts e rq w =
     (case truetype e (font_path rq) (font_size rq) of
        None \<Rightarrow>
          ((DefaultFont, DefaultFont),
           w\<lparr>stdout := stdout w @
                [ustr_of ''Error loading font: '' @ load_error e (font_path rq) (font_size rq)]\<rparr>)
      | Some f \<Rightarrow>
          (case truetype e (font_path rq) (max 12 (font_size rq div 3)) of
             None \<Rightarrow>
               ((DefaultFont, DefaultFont),
                w\<lparr>stdout := stdout w @
                     [ustr_of ''Error loading font: ''
                        @ load_error e (font_path rq) (max 12 (font_size rq div 3))]\<rparr>)
           | Some hf \<Rightarrow> ((f, hf), w)))"

text \<open>\<open>f"ID: {cert_hash[:12].upper()}"\<close>.\<close>

definition hash_display :: "ustr \<Rightarrow> ustr" where
  "hash_display cert_hash = ustr_of ''ID: '' @ upper (take 12 cert_hash)"

text \<open>Where the hash and the QR code go: the position given, or the default one.\<close>

definition hash_pos :: "generator \<Rightarrow> request \<Rightarrow> pos" where
  "hash_pos g rq =
     (case hash_position rq of
        Some p \<Rightarrow> p
      | None \<Rightarrow> (50, template_height g - 100))"

definition qr_pos :: "generator \<Rightarrow> request \<Rightarrow> pos" where
  "qr_pos g rq =
     (case qr_position rq of
        Some p \<Rightarrow> p
      | None \<Rightarrow> (template_width g - qr_size rq - 50, template_height g - qr_size rq - 50))"

text \<open>\<open>generate_certificate\<close>: the address of the new image and the hash.\<close>

definition generate_certificate ::
  "env \<Rightarrow> ustr \<Rightarrow> request \<Rightarrow> world \<Rightarrow> (error + nat \<times> ustr) \<times> world" where
  "generate_certificate e attendee_name rq w =
     (case image_copy (template (gen w)) w of
        (cert, w1) \<Rightarrow>
     (case load_fonts e rq w1 of
        ((f, hf), w2) \<Rightarrow>
     (case draw_text e cert (name_position rq) attendee_name f (text_color rq) w2 of
        Inl err \<Rightarrow> (Inl err, w2)
      | Inr w3 \<Rightarrow>
     (case generate_hash e attendee_name w3 of
        (Inl err, w4) \<Rightarrow> (Inl err, w4)
      | (Inr cert_hash, w4) \<Rightarrow>
     (case draw_text e cert (hash_pos (gen w4) rq) (hash_display cert_hash) hf (text_color rq) w4 of
        Inl err \<Rightarrow> (Inl err, w4)
      | Inr w5 \<Rightarrow>
     (case generate_qr_code e attendee_name cert_hash w5 of
        (Inl err, w6) \<Rightarrow> (Inl err, w6)
      | (Inr qr_img, w6) \<Rightarrow>
     (case resize qr_img (qr_size rq, qr_size rq) of
        Inl err \<Rightarrow> (Inl err, w6)
      | Inr qr_img' \<Rightarrow>
          (Inr (cert, cert_hash), paste cert qr_img' (qr_pos (gen w6) rq) w6))))))))"

text \<open>\<open>Image.save(output_path)\<close> for a \<open>.png\<close> path, and \<open>save_as_pdf\<close>.\<close>

definition save :: "env \<Rightarrow> nat \<Rightarrow> ustr \<Rightarrow> world \<Rightarrow> error + world" where
  "save e cert p w = write_file e p (ImageFile (heap w cert)) w"

definition save_as_pdf :: "env \<Rightarrow> nat \<Rightarrow> ustr \<Rightarrow> world \<Rightarrow> error + world" where
  "save_as_pdf e cert p w =
     (let im = heap w cert;
          im' = (if mode im \<noteq> ustr_of ''RGB'' then convert im (ustr_of ''RGB'') else im)
      in write_file e p (PdfFile im') w)"

text \<open>The loop of \<open>batch_generate\<close>; \<open>results\<close> is the list built so far.\<close>

fun batch_loop ::
  "env \<Rightarrow> ustr \<Rightarrow> request \<Rightarrow> bool \<Rightarrow> ustr list \<Rightarrow> cert_info list \<Rightarrow> world
     \<Rightarrow> (error + cert_info list) \<times> world" where
  "batch_loop e output_dir rq pdf [] results w = (Inr results, w)"
| "batch_loop e output_dir rq pdf (attendee # rest) results w =
     (case generate_certificate e attendee rq w of
        (Inl err, w1) \<Rightarrow> (Inl err, w1)
      | (Inr (cert, cert_hash), w1) \<Rightarrow>
          (let p = output_path (ucd e) output_dir attendee pdf
           in case (if pdf then save_as_pdf e cert p w1 else save e cert p w1) of
                Inl err \<Rightarrow> (Inl err, w1)
              | Inr w2 \<Rightarrow>
                  batch_loop e output_dir rq pdf rest
                    (results @ [\<lparr>name = attendee, hash = cert_hash, path = p\<rparr>]) w2))"

definition batch_generate ::
  "env \<Rightarrow> ustr list \<Rightarrow> ustr \<Rightarrow> request \<Rightarrow> bool \<Rightarrow> world
     \<Rightarrow> (error + cert_info list) \<times> world" where
  "batch_generate e attendees output_dir rq pdf w =
     (case makedirs e output_dir w of
        Inl err \<Rightarrow> (Inl err, w)
      | Inr w1 \<Rightarrow> batch_loop e output_dir rq pdf attendees [] w1)"


section \<open>Reading a rendered certificate\<close>

text \<open>
  What \<open>__init__\<close> leaves behind: the template is an object of the store, and the two
  attributes hold its size.
\<close>

definition consistent :: "world \<Rightarrow> bool" where
  "consistent w =
     (template (gen w) < fresh w \<and>
      template_width (gen w) = width (heap w (template (gen w))) \<and>
      template_height (gen w) = height (heap w (template (gen w))))"

text \<open>
  The layers of a certificate, read back from the history of its pixels: the picture
  underneath, the first text drawn (the name), the second text (the hash stamp), and
  the QR symbol pasted last with the text it encodes, its size and its position.
\<close>

fun base_layer :: "pixels \<Rightarrow> pixels option" where
  "base_layer (WithPaste (WithText (WithText b p t f c) p' t' f' c') q qp) = Some b"
| "base_layer _ = None"

fun name_layer :: "pixels \<Rightarrow> (pos \<times> ustr \<times> font \<times> colour) option" where
  "name_layer (WithPaste (WithText (WithText b p t f c) p' t' f' c') q qp) = Some (p, t, f, c)"
| "name_layer _ = None"

fun stamp_layer :: "pixels \<Rightarrow> (pos \<times> ustr \<times> font \<times> colour) option" where
  "stamp_layer (WithPaste (WithText b p t f c) q qp) = Some (p, t, f, c)"
| "stamp_layer _ = None"

fun qr_layer :: "pixels \<Rightarrow> (ustr \<times> int \<times> int \<times> pos) option" where
  "qr_layer (WithPaste b (Resized (QrSymbol t) sx sy) qp) = Some (t, sx, sy, qp)"
| "qr_layer _ = None"

text \<open>A character of \<open>0123456789ABCDEF\<close>.\<close>

definition upper_hex :: "nat \<Rightarrow> bool" where
  "upper_hex c = ((48 \<le> c \<and> c \<le> 57) \<or> (65 \<le> c \<and> c \<le> 70))"

text \<open>The pattern \<open>YYYY-MM-DD HH:MM:SS\<close>.\<close>

definition is_digit :: "nat \<Rightarrow> bool" where
  "is_digit c = (48 \<le> c \<and> c \<le> 57)"

definition is_ymd_hms :: "ustr \<Rightarrow> bool" where
  "is_ymd_hms s =
     (case s of
        [y1, y2, y3, y4, s1, m1, m2, s2, d1, d2, s3, h1, h2, s4, n1, n2, s5, c1, c2] \<Rightarrow>
          list_all is_digit [y1, y2, y3, y4, m1, m2, d1, d2, h1, h2, n1, n2, c1, c2] \<and>
          s1 = 45 \<and> s2 = 45 \<and> s3 = 32 \<and> s4 = 58 \<and> s5 = 58
      | _ \<Rightarrow> False)"

text \<open>The QR encoder fits every text of up to \<open>n\<close> characters.\<close>

definition qr_accepts :: "env \<Rightarrow> nat \<Rightarrow> bool" where
  "qr_accepts e n = (\<forall>t. length t \<le> n \<longrightarrow> qr_best_fit e t \<noteq> None)"

text \<open>
  The environment lets every step of a batch succeed: the output directory can be
  made, every name has a UTF-8 encoding, can be drawn and fits a QR symbol with its
  record, and every output path can be written.
\<close>

definition batch_ready ::
  "env \<Rightarrow> ustr list \<Rightarrow> ustr \<Rightarrow> request \<Rightarrow> bool \<Rightarrow> world \<Rightarrow> bool" where
  "batch_ready e attendees output_dir rq pdf w =
     (template (gen w) < fresh w \<and>
      output_dir \<noteq> [] \<and>
      (\<forall>d \<in> set (ancestors output_dir @ [strip_dir output_dir]).
         files w d = None \<and> (d \<in> dirs w \<or> writable e d)) \<and>
      encodable (event_name (gen w)) \<and>
      0 < qr_size rq \<and>
      (\<forall>h. draw_ok e (mode (heap w (template (gen w)))) (snd (fst (load_fonts e rq w)))
             (hash_display h) (text_color rq)) \<and>
      (\<forall>a \<in> set attendees.
         encodable a \<and>
         draw_ok e (mode (heap w (template (gen w)))) (fst (fst (load_fonts e rq w))) a
           (text_color rq) \<and>
         qr_accepts e (132 + 12 * (length a + length (event_name (gen w)))) \<and>
         output_path (ucd e) output_dir a pdf \<notin> dirs w \<and>
         writable e (output_path (ucd e) output_dir a pdf)))"

section \<open>An environment and a state for examples\<close>

text \<open>A clock whose readings are one millisecond apart, and one that stands still.\<close>

definition ticking_clock :: "nat \<Rightarrow> datetime" where
  "ticking_clock n =
     \<lparr>year = 2024, month = 5, day = 17, hour = 9, minute = 30,
      second = (n div 1000) mod 60, microsecond = 1000 * (n mod 1000)\<rparr>"

definition frozen_clock :: "nat \<Rightarrow> datetime" where
  "frozen_clock n =
     \<lparr>year = 2024, month = 5, day = 17, hour = 9, minute = 30,
      second = 0, microsecond = 250000\<rparr>"

text \<open>
  The number of bytes that a QR symbol of each version holds at error correction
  level L, and the smallest version that holds a text of a given length.
\<close>

definition byte_capacity :: "nat list" where
  "byte_capacity =
     [17, 32, 53, 78, 106, 134, 154, 192, 230, 271,
      321, 367, 425, 458, 520, 586, 644, 718, 792, 858,
      929, 1003, 1091, 1171, 1273, 1367, 1465, 1528, 1628, 1732,
      1840, 1952, 2068, 2188, 2303, 2431, 2563, 2699, 2809, 2953]"

fun fit :: "nat \<Rightarrow> nat list \<Rightarrow> nat \<Rightarrow> nat option" where
  "fit n [] v = None"
| "fit n (c # cs) v = (if n \<le> c then Some v else fit n cs (Suc v))"

definition fit_bytes :: "ustr \<Rightarrow> nat option" where
  "fit_bytes t = fit (length t) byte_capacity 1"

definition roboto :: ustr where
  "roboto = ustr_of ''fonts/Roboto.ttf''"

definition sample_env :: env where
  "sample_env =
     \<lparr>ucd = latin1_only,
      clock = ticking_clock,
      truetype_ok = (\<lambda>p sz. p = roboto \<and> 0 < sz),
      load_error = (\<lambda>p sz. ustr_of ''cannot open resource''),
      draw_ok = (\<lambda>m f t c. True),
      qr_best_fit = fit_bytes,
      writable = (\<lambda>p. True)\<rparr>"

definition coarse_env :: env where
  "coarse_env = sample_env\<lparr>clock := frozen_clock\<rparr>"

definition template_image :: image where
  "template_image = \<lparr>width = 1200, height = 800, mode = ustr_of ''RGB'', pixels = Raster 0\<rparr>"

text \<open>The state after \<open>CertificateGenerator("template.png")\<close>: the template is object 0.\<close>

definition sample_world :: world where
  "sample_world =
     \<lparr>gen = \<lparr>template = 0, event_name = ustr_of ''GDG Basra Event'',
              template_width = 1200, template_height = 800\<rparr>,
      heap = (\<lambda>a. template_image),
      fresh = 1,
      ticks = 0,
      stdout = [],
      dirs = {},
      files = [ustr_of ''template.png'' \<mapsto> ImageFile template_image]\<rparr>"

text \<open>The state before the generator is made: no object yet.\<close>

definition boot_world :: world where
  "boot_world =
     sample_world\<lparr>gen := \<lparr>template = 0, event_name = [], template_width = 0,
                            template_height = 0\<rparr>,
                   fresh := 0\<rparr>"

definition sample_request :: request where
  "sample_request =
     \<lparr>name_position = (600, 400),
      font_path = Some roboto,
      font_size = 60,
      text_color = (0, 0, 0),
      hash_position = None,
      qr_position = None,
      qr_size = 150\<rparr>"

text \<open>The same request without a font file, as when the download of the font failed.\<close>

definition no_font_request :: request where
  "no_font_request = sample_request\<lparr>font_path := None\<rparr>"

definition alice :: ustr where
  "alice = ustr_of ''Alice''"

section \<open>Properties of the file names\<close>

lemma safe_name_Nil: "safe_name u [] = []"
  by (simp add: safe_name_def)

lemma safe_name_Cons:
  "safe_name u (c # cs) = (if keeps u c then c else 95) # safe_name u cs"
  by (simp add: safe_name_def ustr_of_def)

lemma safe_name_map:
  "safe_name u s = map (\<lambda>c. if keeps u c then c else 95) s"
  by (induction s) (simp_all add: safe_name_Nil safe_name_Cons)

lemma safe_name_length: "length (safe_name u s) = length s"
  by (simp add: safe_name_map)

lemma safe_name_nth:
  "i < length s \<Longrightarrow> safe_name u s ! i = (if keeps u (s ! i) then s ! i else 95)"
  by (simp add: safe_name_map)

lemma keeps_not_slash: "\<not> keeps u 47"
  by (simp add: keeps_def isalnum_def)

lemma safe_name_no_slash: "47 \<notin> set (safe_name u s)"
  by (auto simp: safe_name_map keeps_not_slash)

lemma file_name_not_absolute:
  "file_name u s p \<noteq> [] \<and> hd (file_name u s p) \<noteq> 47"
proof (cases s)
  case Nil
  then show ?thesis
    by (simp add: file_name_def safe_name_Nil extension_def ustr_of_def)
next
  case (Cons c cs)
  then show ?thesis
    by (simp add: file_name_def safe_name_Cons keeps_not_slash) (metis keeps_not_slash)
qed


section \<open>Properties of the hash\<close>

lemma nibble_bound: "unat (drop_bit k (w :: w32) AND 0xF) < 16"
proof -
  have "unat (drop_bit k w AND 15) \<le> unat (15 :: w32)"
    by (rule word_and_le1 [THEN word_le_nat_alt [THEN iffD1]])
  then show ?thesis by simp
qed

lemma hexdigit_lower: "n < 16 \<Longrightarrow> lower_hex (hexdigit n)"
  by (auto simp: lower_hex_def hexdigit_def)

lemma hex_word_length: "length (hex_word w) = 8"
  by (simp add: hex_word_def)

lemma hex_word_lower: "c \<in> set (hex_word w) \<Longrightarrow> lower_hex c"
  by (auto simp: hex_word_def intro!: hexdigit_lower nibble_bound)

lemma hexdigest_length: "length (hexdigest s) = 64"
  by (simp add: hexdigest_def hex_word_length split: prod.splits)

lemma hexdigest_lower: "c \<in> set (hexdigest s) \<Longrightarrow> lower_hex c"
  by (auto simp: hexdigest_def split: prod.splits dest: hex_word_lower)

lemma utf8_char_None: "utf8_char c = None \<longleftrightarrow> \<not> scalar c"
  by (auto simp: utf8_char_def scalar_def)

lemma utf8_char_Some: "utf8_char c = Some x \<Longrightarrow> scalar c"
  using utf8_char_None [of c] by auto

lemma encode_encodable: "encodable s \<Longrightarrow> \<exists>bs. encode s = Inr bs"
proof (induction s)
  case Nil
  then show ?case by simp
next
  case (Cons c cs)
  then have "utf8_char c \<noteq> None" and "encodable cs"
    by (auto simp: encodable_def utf8_char_None)
  with Cons.IH show ?case by (auto split: option.splits)
qed

lemma encode_Inr_encodable: "encode s = Inr bs \<Longrightarrow> encodable s"
proof (induction s arbitrary: bs)
  case Nil
  then show ?case by (simp add: encodable_def)
next
  case (Cons c cs)
  then show ?case
    by (auto simp: encodable_def split: option.splits sum.splits dest: utf8_char_Some)
qed

lemma encode_Inl: "encode s = Inl err \<Longrightarrow> err = UnicodeEncodeError \<and> \<not> encodable s"
proof (induction s)
  case Nil
  then show ?case by simp
next
  case (Cons c cs)
  then show ?case
    by (auto simp: encodable_def utf8_char_None split: option.splits sum.splits)
qed

lemma encodable_append: "encodable (a @ b) \<longleftrightarrow> encodable a \<and> encodable b"
  by (auto simp: encodable_def)

lemma zpad_digits: "c \<in> set (zpad k n) \<Longrightarrow> 48 \<le> c \<and> c \<le> 57"
proof -
  assume "c \<in> set (zpad k n)"
  then obtain i where "c = 48 + (n div 10 ^ i) mod 10" by (auto simp: zpad_def)
  moreover have "(n div 10 ^ i) mod 10 < 10" by simp
  ultimately show ?thesis by linarith
qed

lemma zpad_length: "length (zpad k n) = k"
  by (simp add: zpad_def)

lemma zpad_2: "zpad 2 n = [48 + (n div 10) mod 10, 48 + n mod 10]"
  by (simp add: zpad_def upt_rec)

lemma zpad_4:
  "zpad 4 n = [48 + (n div 1000) mod 10, 48 + (n div 100) mod 10, 48 + (n div 10) mod 10,
               48 + n mod 10]"
  by (simp add: zpad_def upt_rec)

lemma zpad_6:
  "zpad 6 n = [48 + (n div 100000) mod 10, 48 + (n div 10000) mod 10,
               48 + (n div 1000) mod 10, 48 + (n div 100) mod 10, 48 + (n div 10) mod 10,
               48 + n mod 10]"
  by (simp add: zpad_def upt_rec)


lemma encodable_ascii: "(\<And>c. c \<in> set s \<Longrightarrow> c < 128) \<Longrightarrow> encodable s"
  by (fastforce simp: encodable_def scalar_def list_all_iff)

lemma isoformat_ascii: "c \<in> set (isoformat t) \<Longrightarrow> c < 128"
  by (auto simp: isoformat_def ustr_of_def dest!: zpad_digits split: if_splits)

lemma encodable_isoformat: "encodable (isoformat t)"
  by (rule encodable_ascii) (rule isoformat_ascii)

lemma generate_hash_world: "snd (generate_hash e a w) = w\<lparr>ticks := Suc (ticks w)\<rparr>"
  by (simp add: generate_hash_def now_def Let_def split: sum.splits)

lemma generate_hash_Inr:
  "encode (a @ event_name (gen w) @ isoformat (clock e (ticks w))) = Inr bs \<Longrightarrow>
   generate_hash e a w = (Inr (hexdigest (sha256 bs)), w\<lparr>ticks := Suc (ticks w)\<rparr>)"
  by (simp add: generate_hash_def now_def)

lemma generate_hash_Inl:
  "encode (a @ event_name (gen w) @ isoformat (clock e (ticks w))) = Inl err \<Longrightarrow>
   generate_hash e a w = (Inl err, w\<lparr>ticks := Suc (ticks w)\<rparr>)"
  by (simp add: generate_hash_def now_def)

lemma generate_hash_returns:
  assumes "encodable (a @ event_name (gen w))"
  shows "\<exists>bs. encode (a @ event_name (gen w) @ isoformat (clock e (ticks w))) = Inr bs \<and>
              generate_hash e a w = (Inr (hexdigest (sha256 bs)), w\<lparr>ticks := Suc (ticks w)\<rparr>)"
proof -
  have "encodable (a @ event_name (gen w) @ isoformat (clock e (ticks w)))"
    using assms by (simp add: encodable_append encodable_isoformat)
  then obtain bs where "encode (a @ event_name (gen w) @ isoformat (clock e (ticks w))) = Inr bs"
    using encode_encodable by blast
  then show ?thesis by (auto simp: generate_hash_Inr)
qed

lemma generate_hash_cases:
  obtains (ok) bs where
      "encode (a @ event_name (gen w) @ isoformat (clock e (ticks w))) = Inr bs"
      "generate_hash e a w = (Inr (hexdigest (sha256 bs)), w\<lparr>ticks := Suc (ticks w)\<rparr>)"
    | (fail)
      "\<not> encodable (a @ event_name (gen w))"
      "generate_hash e a w = (Inl UnicodeEncodeError, w\<lparr>ticks := Suc (ticks w)\<rparr>)"
proof (cases "encode (a @ event_name (gen w) @ isoformat (clock e (ticks w)))")
  case (Inl err)
  then have "err = UnicodeEncodeError"
    and "\<not> encodable (a @ event_name (gen w) @ isoformat (clock e (ticks w)))"
    using encode_Inl by blast+
  then have "\<not> encodable (a @ event_name (gen w))"
    using encodable_isoformat [of "clock e (ticks w)"]
    by (metis encodable_append)
  with Inl \<open>err = UnicodeEncodeError\<close> show ?thesis
    using fail generate_hash_Inl by blast
next
  case (Inr bs)
  then show ?thesis using ok generate_hash_Inr by blast
qed

section \<open>Properties of a render\<close>

lemma load_fonts_snd:
  "snd (load_fonts e rq w) = w\<lparr>stdout := stdout (snd (load_fonts e rq w))\<rparr>"
  by (simp add: load_fonts_def split: option.splits)

lemma load_fonts_fst: "fst (load_fonts e rq w) = fst (load_fonts e rq w0)"
  by (simp add: load_fonts_def split: option.splits)

lemma load_fonts_upd:
  "load_fonts e rq (w\<lparr>heap := hp, fresh := n\<rparr>) =
     (fst (load_fonts e rq w), w\<lparr>heap := hp, fresh := n, stdout := stdout (snd (load_fonts e rq w))\<rparr>)"
  by (simp add: load_fonts_def split: option.splits)

lemma load_fonts_default:
  "truetype e (font_path rq) (font_size rq) = None \<or>
   truetype e (font_path rq) (max 12 (font_size rq div 3)) = None \<Longrightarrow>
   fst (load_fonts e rq w) = (DefaultFont, DefaultFont)"
  by (auto simp: load_fonts_def split: option.splits)

lemma load_fonts_loaded:
  "truetype e (font_path rq) (font_size rq) = Some f \<Longrightarrow>
   truetype e (font_path rq) (max 12 (font_size rq div 3)) = Some hf \<Longrightarrow>
   load_fonts e rq w = ((f, hf), w)"
  by (simp add: load_fonts_def)

text \<open>The image that a successful render leaves at the new address.\<close>

lemma generate_certificate_success:
  assumes fonts: "fst (load_fonts e rq w) = (f, hf)"
    and draw1: "draw_ok e (mode (heap w (template (gen w)))) f a (text_color rq)"
    and enc: "encode (a @ event_name (gen w) @ isoformat (clock e (ticks w))) = Inr bs"
    and draw2: "draw_ok e (mode (heap w (template (gen w)))) hf
                  (hash_display (hexdigest (sha256 bs))) (text_color rq)"
    and qr: "qr_best_fit e (json_dumps (verification_data (hexdigest (sha256 bs)) a
               (event_name (gen w)) (clock e (Suc (ticks w))))) = Some v"
    and sz: "0 < qr_size rq"
  shows "generate_certificate e a rq w =
     (Inr (fresh w, hexdigest (sha256 bs)),
      w\<lparr>heap := (heap w)(fresh w := (heap w (template (gen w)))
           \<lparr>pixels :=
              WithPaste
                (WithText
                   (WithText (pixels (heap w (template (gen w)))) (name_position rq) a f
                      (text_color rq))
                   (hash_pos (gen w) rq) (hash_display (hexdigest (sha256 bs))) hf
                   (text_color rq))
                (Resized
                   (QrSymbol (json_dumps (verification_data (hexdigest (sha256 bs)) a
                      (event_name (gen w)) (clock e (Suc (ticks w))))))
                   (qr_size rq) (qr_size rq))
                (qr_pos (gen w) rq)\<rparr>),
        fresh := Suc (fresh w),
        stdout := stdout (snd (load_fonts e rq w)),
        ticks := Suc (Suc (ticks w))\<rparr>)"
  using assms
  by (simp add: generate_certificate_def image_copy_def alloc_def load_fonts_upd draw_text_def
      generate_hash_def now_def generate_qr_code_def resize_def paste_def Let_def)


lemma draw_text_frame:
  "draw_text e c xy t f col w = Inr w' \<Longrightarrow>
   gen w' = gen w \<and> fresh w' = fresh w \<and> ticks w' = ticks w \<and> stdout w' = stdout w \<and>
   dirs w' = dirs w \<and> files w' = files w \<and> (\<forall>x. x \<noteq> c \<longrightarrow> heap w' x = heap w x) \<and>
   width (heap w' c) = width (heap w c) \<and> height (heap w' c) = height (heap w c) \<and>
   mode (heap w' c) = mode (heap w c)"
  by (auto simp: draw_text_def Let_def split: if_splits)

lemma generate_certificate_frame:
  "gen (snd (generate_certificate e a rq w)) = gen w \<and>
   dirs (snd (generate_certificate e a rq w)) = dirs w \<and>
   files (snd (generate_certificate e a rq w)) = files w \<and>
   fresh (snd (generate_certificate e a rq w)) = Suc (fresh w) \<and>
   (\<forall>x. x \<noteq> fresh w \<longrightarrow> heap (snd (generate_certificate e a rq w)) x = heap w x)"
  by (simp add: generate_certificate_def image_copy_def alloc_def load_fonts_upd draw_text_def
      generate_hash_def now_def generate_qr_code_def resize_def paste_def Let_def
      split: sum.splits option.splits prod.splits)


lemma generate_certificate_Inr:
  assumes "generate_certificate e a rq w = (Inr (c, h), w')"
  shows "\<exists>bs v. 
      draw_ok e (mode (heap w (template (gen w)))) (fst (fst (load_fonts e rq w))) a (text_color rq) \<and>
      encode (a @ event_name (gen w) @ isoformat (clock e (ticks w))) = Inr bs \<and>
      draw_ok e (mode (heap w (template (gen w)))) (snd (fst (load_fonts e rq w)))
                  (hash_display (hexdigest (sha256 bs))) (text_color rq) \<and>
      qr_best_fit e (json_dumps (verification_data (hexdigest (sha256 bs)) a
               (event_name (gen w)) (clock e (Suc (ticks w))))) = Some v \<and>
      0 < qr_size rq"
  using assms
  by (auto simp: generate_certificate_def image_copy_def alloc_def load_fonts_upd draw_text_def
      generate_hash_def now_def generate_qr_code_def resize_def Let_def
      split: sum.splits option.splits prod.splits if_splits)


lemma generate_certificate_InrE:
  assumes "generate_certificate e a rq w = (Inr (c, h), w')"
  obtains bs where
    "encode (a @ event_name (gen w) @ isoformat (clock e (ticks w))) = Inr bs"
    "h = hexdigest (sha256 bs)"
    "c = fresh w"
    "w' = w\<lparr>heap := (heap w)(fresh w := (heap w (template (gen w)))
           \<lparr>pixels :=
              WithPaste
                (WithText
                   (WithText (pixels (heap w (template (gen w)))) (name_position rq) a
                      (fst (fst (load_fonts e rq w))) (text_color rq))
                   (hash_pos (gen w) rq) (hash_display h) (snd (fst (load_fonts e rq w)))
                   (text_color rq))
                (Resized
                   (QrSymbol (json_dumps (verification_data h a
                      (event_name (gen w)) (clock e (Suc (ticks w))))))
                   (qr_size rq) (qr_size rq))
                (qr_pos (gen w) rq)\<rparr>),
        fresh := Suc (fresh w),
        stdout := stdout (snd (load_fonts e rq w)),
        ticks := Suc (Suc (ticks w))\<rparr>"
proof -
  from generate_certificate_Inr [OF assms] obtain bs v where
    d1: "draw_ok e (mode (heap w (template (gen w)))) (fst (fst (load_fonts e rq w))) a
           (text_color rq)"
    and enc: "encode (a @ event_name (gen w) @ isoformat (clock e (ticks w))) = Inr bs"
    and d2: "draw_ok e (mode (heap w (template (gen w)))) (snd (fst (load_fonts e rq w)))
           (hash_display (hexdigest (sha256 bs))) (text_color rq)"
    and qr: "qr_best_fit e (json_dumps (verification_data (hexdigest (sha256 bs)) a
               (event_name (gen w)) (clock e (Suc (ticks w))))) = Some v"
    and sz: "0 < qr_size rq"
    by blast
  have "fst (load_fonts e rq w) = (fst (fst (load_fonts e rq w)), snd (fst (load_fonts e rq w)))"
    by simp
  from generate_certificate_success [OF this d1 enc d2 qr sz] assms
  have "c = fresh w" "h = hexdigest (sha256 bs)" and w': "w' = w\<lparr>heap := (heap w)(fresh w := (heap w (template (gen w)))
           \<lparr>pixels :=
              WithPaste
                (WithText
                   (WithText (pixels (heap w (template (gen w)))) (name_position rq) a
                      (fst (fst (load_fonts e rq w))) (text_color rq))
                   (hash_pos (gen w) rq) (hash_display (hexdigest (sha256 bs))) (snd (fst (load_fonts e rq w)))
                   (text_color rq))
                (Resized
                   (QrSymbol (json_dumps (verification_data (hexdigest (sha256 bs)) a
                      (event_name (gen w)) (clock e (Suc (ticks w))))))
                   (qr_size rq) (qr_size rq))
                (qr_pos (gen w) rq)\<rparr>),
        fresh := Suc (fresh w),
        stdout := stdout (snd (load_fonts e rq w)),
        ticks := Suc (Suc (ticks w))\<rparr>"
    by simp_all
  with enc that show ?thesis by blast
qed

section \<open>JSON text of plain strings\<close>

lemma json_escape_plain:
  "32 \<le> c \<Longrightarrow> c \<le> 126 \<Longrightarrow> c \<noteq> 34 \<Longrightarrow> c \<noteq> 92 \<Longrightarrow> json_escape c = [c]"
  by (simp add: json_escape_def)

lemma escape_plain_text:
  "(\<And>c. c \<in> set s \<Longrightarrow> 32 \<le> c \<and> c \<le> 126 \<and> c \<noteq> 34 \<and> c \<noteq> 92) \<Longrightarrow>
   concat (map json_escape s) = s"
  by (induction s) (simp_all add: json_escape_plain)

lemma lower_hex_plain: "lower_hex c \<Longrightarrow> 32 \<le> c \<and> c \<le> 126 \<and> c \<noteq> 34 \<and> c \<noteq> 92"
  by (auto simp: lower_hex_def)

lemma strftime_chars:
  "c \<in> set (strftime t) \<Longrightarrow> 32 \<le> c \<and> c \<le> 126 \<and> c \<noteq> 34 \<and> c \<noteq> 92"
  by (auto simp: strftime_def ustr_of_def dest!: zpad_digits)

lemma strftime_length: "length (strftime t) = 19"
  by (simp add: strftime_def zpad_length ustr_of_def)

lemma hex4_length: "length (hex4 n) = 4"
  by (simp add: hex4_def)

lemma json_escape_length: "length (json_escape c) \<le> 12"
  by (simp add: json_escape_def hex4_length Let_def)

lemma escape_length: "length (concat (map json_escape s)) \<le> 12 * length s"
proof (induction s)
  case Nil
  then show ?case by simp
next
  case (Cons c cs)
  then show ?case using json_escape_length [of c] by simp
qed

lemma payload_text:
  "json_dumps (verification_data h a ev t) =
     ustr_of ''{'' @ json_string (ustr_of ''hash'') @ ustr_of '': '' @ json_string h
       @ ustr_of '', '' @ json_string (ustr_of ''name'') @ ustr_of '': '' @ json_string a
       @ ustr_of '', '' @ json_string (ustr_of ''event'') @ ustr_of '': '' @ json_string ev
       @ ustr_of '', '' @ json_string (ustr_of ''date'') @ ustr_of '': '' @ json_string (strftime t)
       @ ustr_of ''}''"
  by (simp add: json_dumps_def verification_data_def json_item_def)

lemma json_string_plain:
  "(\<And>c. c \<in> set s \<Longrightarrow> 32 \<le> c \<and> c \<le> 126 \<and> c \<noteq> 34 \<and> c \<noteq> 92) \<Longrightarrow>
   json_string s = [34] @ s @ [34]"
  by (simp add: json_string_def escape_plain_text)

lemma payload_length:
  assumes "length h = 64" and "\<And>c. c \<in> set h \<Longrightarrow> lower_hex c"
  shows "length (json_dumps (verification_data h a ev t)) \<le> 132 + 12 * (length a + length ev)"
proof -
  have h: "json_string h = [34] @ h @ [34]"
    using assms(2) by (intro json_string_plain lower_hex_plain)
  have d: "json_string (strftime t) = [34] @ strftime t @ [34]"
    by (intro json_string_plain strftime_chars)
  have k: "json_string (ustr_of ''hash'') = [34] @ ustr_of ''hash'' @ [34]"
    "json_string (ustr_of ''name'') = [34] @ ustr_of ''name'' @ [34]"
    "json_string (ustr_of ''event'') = [34] @ ustr_of ''event'' @ [34]"
    "json_string (ustr_of ''date'') = [34] @ ustr_of ''date'' @ [34]"
    by (simp_all add: json_string_def json_escape_def ustr_of_def)
  have "length (json_dumps (verification_data h a ev t)) =
      132 + length (concat (map json_escape a)) + length (concat (map json_escape ev))"
    by (simp add: payload_text h d k assms(1) strftime_length)
      (simp add: json_string_def ustr_of_def)
  then show ?thesis
    using escape_length [of a] escape_length [of ev] by simp
qed

text \<open>Every step of a render succeeds when the environment lets it.\<close>

lemma generate_certificate_returns:
  assumes enc: "encodable (a @ event_name (gen w))"
    and d1: "draw_ok e (mode (heap w (template (gen w)))) (fst (fst (load_fonts e rq w))) a
               (text_color rq)"
    and d2: "\<And>h. draw_ok e (mode (heap w (template (gen w)))) (snd (fst (load_fonts e rq w)))
               (hash_display h) (text_color rq)"
    and qr: "qr_accepts e (132 + 12 * (length a + length (event_name (gen w))))"
    and sz: "0 < qr_size rq"
  shows "\<exists>c h w'. generate_certificate e a rq w = (Inr (c, h), w')"
proof -
  from generate_hash_returns [OF enc, of e] obtain bs where
    bs: "encode (a @ event_name (gen w) @ isoformat (clock e (ticks w))) = Inr bs"
    by blast
  let ?h = "hexdigest (sha256 bs)"
  let ?t = "json_dumps (verification_data ?h a (event_name (gen w)) (clock e (Suc (ticks w))))"
  have "length ?t \<le> 132 + 12 * (length a + length (event_name (gen w)))"
    by (rule payload_length) (simp_all add: hexdigest_length hexdigest_lower)
  with qr obtain v where v: "qr_best_fit e ?t = Some v"
    by (auto simp: qr_accepts_def)
  have f: "fst (load_fonts e rq w) = (fst (fst (load_fonts e rq w)), snd (fst (load_fonts e rq w)))"
    by simp
  from generate_certificate_success [OF f d1 bs d2 v sz] show ?thesis by blast
qed

section \<open>The example environment\<close>

lemma fit_Some: "\<exists>c \<in> set cs. n \<le> c \<Longrightarrow> fit n cs v \<noteq> None"
  by (induction cs arbitrary: v) auto

lemma sample_qr_accepts: "n \<le> 2953 \<Longrightarrow> qr_accepts sample_env n"
proof -
  assume n: "n \<le> 2953"
  have "(2953::nat) \<in> set byte_capacity" by (simp add: byte_capacity_def)
  then have "fit k byte_capacity 1 \<noteq> None" if "k \<le> 2953" for k
    using that by (intro fit_Some) blast
  with n show ?thesis
    by (simp add: qr_accepts_def sample_env_def fit_bytes_def)
qed

lemma coarse_qr_accepts: "n \<le> 2953 \<Longrightarrow> qr_accepts coarse_env n"
  using sample_qr_accepts [of n] by (simp add: qr_accepts_def coarse_env_def)

lemma sample_encodable: "encodable (ustr_of ''Alice'' @ event_name (gen sample_world))"
  by (simp add: sample_world_def encodable_def scalar_def ustr_of_def)

lemma sample_render:
  "font_size rq = 60 \<Longrightarrow> 0 < qr_size rq \<Longrightarrow>
   \<exists>c h w'. generate_certificate sample_env (ustr_of ''Alice'') rq sample_world = (Inr (c, h), w')"
proof (rule generate_certificate_returns)
  show "encodable (ustr_of ''Alice'' @ event_name (gen sample_world))"
    by (rule sample_encodable)
  show "qr_accepts sample_env
     (132 + 12 * (length (ustr_of ''Alice'') + length (event_name (gen sample_world))))"
    by (rule sample_qr_accepts) (simp add: sample_world_def ustr_of_def)
qed (simp_all add: sample_env_def)

lemma generate_certificate_fresh_template:
  "template (gen w) < fresh w \<Longrightarrow>
   heap (snd (generate_certificate e a rq w)) (template (gen w)) = heap w (template (gen w))"
  using generate_certificate_frame [of e a rq w] by simp

lemma ticking_iso_0: "isoformat (ticking_clock 0) = ustr_of ''2024-05-17T09:30:00''"
  by (simp add: isoformat_def ticking_clock_def zpad_2 zpad_4 ustr_of_def)

lemma alice_bytes:
  "encode (alice @ event_name (gen sample_world) @ isoformat (clock sample_env (ticks sample_world)))
     = Inr [65, 108, 105, 99, 101, 71, 68, 71, 32, 66, 97, 115, 114, 97, 32, 69, 118, 101,
        110, 116, 50, 48, 50, 52, 45, 48, 53, 45, 49, 55, 84, 48, 57, 58, 51, 48, 58,
        48, 48]"
  by (simp add: alice_def sample_world_def sample_env_def ticking_iso_0 ustr_of_def utf8_char_def)

lemma truetype_None [simp]: "truetype e None sz = None"
  by (simp add: truetype_def)

lemma render_layers:
  assumes "generate_certificate e a rq w = (Inr (c, h), w')"
  shows "name_layer (pixels (heap w' c))
           = Some (name_position rq, a, fst (fst (load_fonts e rq w)), text_color rq)"
    and "stamp_layer (pixels (heap w' c))
           = Some (hash_pos (gen w) rq, hash_display h, snd (fst (load_fonts e rq w)),
                   text_color rq)"
    and "qr_layer (pixels (heap w' c))
           = Some (json_dumps (verification_data h a (event_name (gen w))
                     (clock e (Suc (ticks w)))),
                   qr_size rq, qr_size rq, qr_pos (gen w) rq)"
  using assms by (elim generate_certificate_InrE, simp)+

lemma render_hash:
  assumes "generate_certificate e a rq w = (Inr (c, h), w')"
  shows "\<exists>bs. encode (a @ event_name (gen w) @ isoformat (clock e (ticks w))) = Inr bs \<and>
              h = hexdigest (sha256 bs)"
  using assms by (elim generate_certificate_InrE) blast

lemma sample_render_alice:
  "font_size rq = 60 \<Longrightarrow> 0 < qr_size rq \<Longrightarrow>
   \<exists>c w'. generate_certificate sample_env alice rq sample_world =
     (Inr (c, hexdigest (sha256
         [65, 108, 105, 99, 101, 71, 68, 71, 32, 66, 97, 115, 114, 97, 32, 69, 118, 101,
          110, 116, 50, 48, 50, 52, 45, 48, 53, 45, 49, 55, 84, 48, 57, 58, 51, 48, 58,
          48, 48])), w')"
proof -
  assume "font_size rq = 60" "0 < qr_size rq"
  then obtain c h w' where
    r: "generate_certificate sample_env alice rq sample_world = (Inr (c, h), w')"
    using sample_render [of rq] by (auto simp: alice_def)
  from render_hash [OF r] alice_bytes r show ?thesis by auto
qed

lemma upper_hex_upper: "lower_hex c \<Longrightarrow> upper_hex (if 97 \<le> c \<and> c \<le> 122 then c - 32 else c)"
  by (auto simp: lower_hex_def upper_hex_def)

lemma hash_display_shape:
  assumes "length h = 64" and "\<And>c. c \<in> set h \<Longrightarrow> lower_hex c"
  shows "length (hash_display h) = 16 \<and> take 4 (hash_display h) = ustr_of ''ID: '' \<and>
         (\<forall>c \<in> set (drop 4 (hash_display h)). upper_hex c)"
proof -
  have "upper_hex c" if "c \<in> set (upper (take 12 h))" for c
  proof -
    from that obtain d where "d \<in> set (take 12 h)"
      and "c = (if 97 \<le> d \<and> d \<le> 122 then d - 32 else d)"
      by (auto simp: upper_def)
    with assms(2) [of d] show ?thesis
      using upper_hex_upper [of d] by (auto dest: in_set_takeD)
  qed
  with assms(1) show ?thesis
    by (simp add: hash_display_def upper_def ustr_of_def)
qed

section \<open>Reading back what \<open>json.dumps\<close> writes\<close>

lemma hex4_eq:
  "hex4 n = [hexdigit (n div 4096 mod 16), hexdigit (n div 256 mod 16),
             hexdigit (n div 16 mod 16), hexdigit (n mod 16)]"
  by (simp add: hex4_def upt_rec)

lemma unhex_hexdigit: "n < 16 \<Longrightarrow> unhex (hexdigit n) = Some n"
  by (auto simp: unhex_def hexdigit_def)

lemma div16_step: "(n::nat) div 16 mod 16 + 16 * (n div 256) = n div 16"
proof -
  have "n div 256 = n div 16 div 16" by (simp add: div_mult2_eq)
  then show ?thesis by simp
qed

lemma div256_step: "(n::nat) div 256 mod 16 + 16 * (n div 4096) = n div 256"
proof -
  have "n div 4096 = n div 256 div 16" by (simp add: div_mult2_eq)
  then show ?thesis by simp
qed

lemma hex4_value:
  assumes "n < 65536"
  shows "((n div 4096 mod 16 * 16 + n div 256 mod 16) * 16 + n div 16 mod 16) * 16 + n mod 16
           = (n::nat)"
proof -
  have "n div 4096 < 16" using assms by (simp add: less_mult_imp_div_less)
  then have a: "n div 4096 mod 16 = n div 4096" by simp
  have "n div 4096 * 16 + n div 256 mod 16 = n div 256"
    using div256_step [of n] by simp
  then have "(n div 4096 * 16 + n div 256 mod 16) * 16 + n div 16 mod 16 = n div 16"
    using div16_step [of n] by simp
  then have "((n div 4096 * 16 + n div 256 mod 16) * 16 + n div 16 mod 16) * 16 + n mod 16 = n"
    by simp
  with a show ?thesis by simp
qed

lemma decode_digits:
  "a < 16 \<Longrightarrow> b < 16 \<Longrightarrow> c < 16 \<Longrightarrow> d < 16 \<Longrightarrow>
   decode_u4 [hexdigit a, hexdigit b, hexdigit c, hexdigit d]
     = Some (((a * 16 + b) * 16 + c) * 16 + d)"
  by (simp add: decode_u4_def unhex_hexdigit)

lemma decode_hex4: "n < 65536 \<Longrightarrow> decode_u4 (take 4 (hex4 n @ rest)) = Some n"
proof -
  assume n: "n < 65536"
  have "take 4 (hex4 n @ rest) = hex4 n" by (simp add: hex4_length)
  moreover have "decode_u4 (hex4 n) =
      Some (((n div 4096 mod 16 * 16 + n div 256 mod 16) * 16 + n div 16 mod 16) * 16 + n mod 16)"
    unfolding hex4_eq by (rule decode_digits) simp_all
  ultimately show ?thesis using hex4_value [OF n] by (simp only:)
qed

lemma decode_hex4': "n < 65536 \<Longrightarrow> decode_u4 (hex4 n) = Some n"
  using decode_hex4 [of n "[]"] by (simp add: hex4_length)

lemma scan_short_escape:
  "c \<in> {34, 92, 10, 13, 9, 12, 8} \<Longrightarrow>
   \<exists>esc. json_escape c = 92 # esc \<and> scan_escape (esc @ rest) = Some (c, length esc)"
  by (auto simp: json_escape_def scan_escape_def)

lemma scan_bmp_escape:
  assumes "scalar c" "c < 0x10000" "\<not> plain c" "c \<notin> {34, 92, 10, 13, 9, 12, 8}"
  shows "json_escape c = 92 # 117 # hex4 c \<and>
         scan_escape ((117 # hex4 c) @ rest) = Some (c, length (117 # hex4 c))"
proof -
  have e: "json_escape c = 92 # 117 # hex4 c"
    using assms by (auto simp: json_escape_def plain_def)
  have d: "decode_u4 (take 4 (hex4 c @ rest)) = Some c"
    using assms(2) by (intro decode_hex4) simp
  have "\<not> (0xD800 \<le> c \<and> c \<le> 0xDBFF)"
    using assms(1) by (auto simp: scalar_def)
  with d e show ?thesis
    by (auto simp: scan_escape_def hex4_length)
qed

lemma scan_pair_escape:
  assumes "scalar c" "0x10000 \<le> c"
  shows "json_escape c =
           92 # 117 # hex4 (0xD800 + ((c - 0x10000) div 1024) mod 1024)
             @ [92, 117] @ hex4 (0xDC00 + (c - 0x10000) mod 1024) \<and>
         scan_escape ((117 # hex4 (0xD800 + ((c - 0x10000) div 1024) mod 1024)
             @ [92, 117] @ hex4 (0xDC00 + (c - 0x10000) mod 1024)) @ rest) = Some (c, 11)"
proof -
  define v where "v = c - 0x10000"
  define hi where "hi = 0xD800 + (v div 1024) mod 1024"
  define lo where "lo = 0xDC00 + v mod 1024"
  have v: "v < 0x100000" "c = 0x10000 + v"
    using assms by (auto simp: v_def scalar_def)
  have hi: "0xD800 \<le> hi" "hi \<le> 0xDBFF" "hi < 65536"
    using mod_less_divisor [of 1024 "v div 1024"] by (simp_all add: hi_def)
  have lo: "0xDC00 \<le> lo" "lo \<le> 0xDFFF" "lo < 65536"
    using mod_less_divisor [of 1024 v] by (simp_all add: lo_def)
  have joined: "0x10000 + ((hi - 0xD800) * 1024 + (lo - 0xDC00)) = c"
    using v by (simp add: hi_def lo_def)
  have e: "json_escape c = 92 # 117 # hex4 hi @ [92, 117] @ hex4 lo"
    using assms by (auto simp: json_escape_def Let_def hi_def lo_def v_def scalar_def)
  have d1: "decode_u4 (take 4 (hex4 hi @ [92, 117] @ hex4 lo @ rest)) = Some hi"
    using hi(3) by (rule decode_hex4)
  have d2: "decode_u4 (take 4 (drop 6 (hex4 hi @ [92, 117] @ hex4 lo @ rest))) = Some lo"
    using decode_hex4 [OF lo(3), of rest] by (simp add: hex4_length)
  have t: "take 2 (drop 4 (hex4 hi @ [92, 117] @ hex4 lo @ rest)) = [92, 117]"
    by (simp add: hex4_length)
  have "scan_escape (117 # hex4 hi @ [92, 117] @ hex4 lo @ rest) = Some (c, 11)"
    using d1 d2 t hi lo joined by (simp add: scan_escape_def)
  with e show ?thesis
    by (simp add: hi_def lo_def v_def)
qed

lemma json_escape_cases:
  assumes "scalar c"
  obtains (plain) "plain c" "json_escape c = [c]"
    | (escaped) esc where "json_escape c = 92 # esc"
        "\<And>rest. scan_escape (esc @ rest) = Some (c, length esc)"
proof (cases "plain c")
  case True
  then show ?thesis using plain by (simp add: plain_def json_escape_plain)
next
  case False
  show ?thesis
  proof (cases "c \<in> {34, 92, 10, 13, 9, 12, 8}")
    case True
    then show ?thesis
      using escaped [of "tl (json_escape c)"]
      by (auto simp: json_escape_def scan_escape_def)
  next
    case short: False
    show ?thesis
    proof (cases "c < 0x10000")
      case True
      with scan_bmp_escape [OF assms True False short] show ?thesis
        using escaped [of "117 # hex4 c"] by auto
    next
      case False
      then have "0x10000 \<le> c" by simp
      from scan_pair_escape [OF assms this] show ?thesis
        using escaped [of "117 # hex4 (0xD800 + ((c - 0x10000) div 1024) mod 1024)
             @ [92, 117] @ hex4 (0xDC00 + (c - 0x10000) mod 1024)"]
        by (auto simp: hex4_length)
    qed
  qed
qed

lemma scanstring_escaped:
  "encodable s \<Longrightarrow> scanstring (concat (map json_escape s) @ 34 # rest) = Some (s, rest)"
proof (induction s)
  case Nil
  then show ?case by simp
next
  case (Cons c cs)
  then have c: "scalar c" and cs: "encodable cs"
    by (simp_all add: encodable_def)
  from Cons.IH [OF cs]
  have ih: "scanstring (concat (map json_escape cs) @ 34 # rest) = Some (cs, rest)" .
  from c show ?case
  proof (cases rule: json_escape_cases)
    case plain
    with ih show ?thesis by (simp add: plain_def)
  next
    case (escaped esc)
    from escaped(2) [of "concat (map json_escape cs) @ 34 # rest"] ih escaped(1)
    show ?thesis by simp
  qed
qed

lemma scan_json_string:
  "encodable s \<Longrightarrow> scanstring (tl (json_string s) @ rest) = Some (s, rest)"
  using scanstring_escaped [of s rest] by (simp add: json_string_def)

lemma json_string_hd: "json_string s = 34 # tl (json_string s)"
  by (simp add: json_string_def)

lemma skip_ws_stop: "c \<notin> {32, 9, 10, 13} \<Longrightarrow> skip_ws (c # s) = c # s"
  by (simp add: skip_ws_def)

lemma skip_ws_space: "skip_ws (32 # s) = skip_ws s"
  by (simp add: skip_ws_def)

lemma json_item_tl:
  "tl (json_item (k, v)) = tl (json_string k) @ [58, 32] @ 34 # tl (json_string v)"
  by (simp add: json_item_def json_string_def ustr_of_def)

lemma json_item_hd: "json_item kv = 34 # tl (json_item kv)"
  by (simp add: json_item_def json_string_def)

lemma parse_member_item:
  assumes "encodable k" "encodable v" "d \<notin> {32, 9, 10, 13}"
  shows "parse_member (tl (json_item (k, v)) @ d # rest) = Some ((k, v), d, rest)"
proof -
  have 1: "scanstring (tl (json_string k) @ 58 # 32 # 34 # tl (json_string v) @ d # rest)
      = Some (k, 58 # 32 # 34 # tl (json_string v) @ d # rest)"
    using assms(1) by (rule scan_json_string)
  have 2: "scanstring (tl (json_string v) @ d # rest) = Some (v, d # rest)"
    using assms(2) by (rule scan_json_string)
  show ?thesis
    using 1 2 assms(3)
    by (simp add: parse_member_def json_item_tl skip_ws_stop skip_ws_space)
qed

lemma str_join_items_hd:
  "str_join sep (map json_item (kv # kvs)) = 34 # tl (str_join sep (map json_item (kv # kvs)))"
  by (cases kvs) (simp_all add: json_item_def json_string_def)

lemma str_join_items_tl:
  "tl (str_join sep (map json_item (kv # kv' # kvs)))
     = tl (json_item kv) @ sep @ str_join sep (map json_item (kv' # kvs))"
  by (simp add: json_item_def json_string_def)

lemma parse_pairs_items:
  assumes "\<And>kv. kv \<in> set items \<Longrightarrow> encodable (fst kv) \<and> encodable (snd kv)"
    and "items \<noteq> []" and "length items \<le> n"
  shows "parse_pairs n (tl (str_join [44, 32] (map json_item items)) @ 125 # rest)
           = Some (items, rest)"
  using assms
proof (induction items arbitrary: n)
  case Nil
  then show ?case by simp
next
  case (Cons kv kvs)
  obtain k v where kv: "kv = (k, v)" by (cases kv)
  from Cons.prems(1) [of kv] kv have enc: "encodable k" "encodable v" by auto
  from Cons.prems(3) obtain m where n: "n = Suc m" and m: "length kvs \<le> m"
    by (cases n) auto
  show ?case
  proof (cases kvs)
    case Nil
    have "parse_member (tl (json_item (k, v)) @ 125 # rest) = Some ((k, v), 125, rest)"
      using enc by (intro parse_member_item) simp_all
    with Nil kv n show ?thesis by simp
  next
    case (Cons kv' more)
    let ?J = "str_join [44, 32] (map json_item kvs)"
    have J: "?J = 34 # tl ?J"
      unfolding Cons by (rule str_join_items_hd)
    have pm: "parse_member (tl (json_item (k, v)) @ 44 # 32 # ?J @ 125 # rest)
        = Some ((k, v), 44, 32 # ?J @ 125 # rest)"
      using enc by (intro parse_member_item) simp_all
    have ih: "parse_pairs m (tl ?J @ 125 # rest) = Some (kvs, rest)"
      using Cons.prems(1) m Cons by (intro Cons.IH) auto
    have "skip_ws (32 # ?J @ 125 # rest) = skip_ws (32 # (34 # tl ?J) @ 125 # rest)"
      using J by (rule arg_cong [where f = "\<lambda>x. skip_ws (32 # x @ 125 # rest)"])
    then have sk: "skip_ws (32 # ?J @ 125 # rest) = 34 # tl ?J @ 125 # rest"
      by (simp add: skip_ws_space skip_ws_stop)
    have "tl (str_join [44, 32] (map json_item (kv # kvs)))
        = tl (json_item (k, v)) @ [44, 32] @ ?J"
      unfolding Cons kv by (rule str_join_items_tl)
    with pm ih sk n kv show ?thesis by simp
  qed
qed

lemma str_join_length:
  "(\<And>x. x \<in> set xs \<Longrightarrow> x \<noteq> []) \<Longrightarrow> length xs \<le> length (str_join sep xs)"
proof (induction sep xs rule: str_join.induct)
  case (1 sep)
  then show ?case by simp
next
  case (2 sep x)
  then show ?case by (cases x) simp_all
next
  case (3 sep x y ys)
  then have "x \<noteq> []" and "length (y # ys) \<le> length (str_join sep (y # ys))"
    by simp_all
  then show ?case by (cases x) simp_all
qed

lemma json_roundtrip:
  assumes "\<And>kv. kv \<in> set items \<Longrightarrow> encodable (fst kv) \<and> encodable (snd kv)"
  shows "json_loads (json_dumps items) = Some items"
proof (cases items)
  case Nil
  then show ?thesis
    by (simp add: json_loads_def json_dumps_def ustr_of_def skip_ws_def)
next
  case (Cons kv kvs)
  let ?J = "str_join [44, 32] (map json_item items)"
  have J: "?J = 34 # tl ?J"
    unfolding Cons by (rule str_join_items_hd)
  have "123 # ?J @ [125] = 123 # (34 # tl ?J) @ [125]"
    using J by (rule arg_cong [where f = "\<lambda>x. 123 # x @ [125]"])
  then have d: "json_dumps items = 123 # 34 # tl ?J @ [125]"
    by (simp add: json_dumps_def ustr_of_def)
  have "length items \<le> length ?J"
    using str_join_length [of "map json_item items" "[44, 32]"]
    by (auto simp: json_item_def json_string_def)
  then have "length items \<le> length (json_dumps items)"
    by (simp add: json_dumps_def ustr_of_def)
  then have "parse_pairs (length (json_dumps items)) (tl ?J @ 125 # []) = Some (items, [])"
    using assms Cons by (intro parse_pairs_items) auto
  then show ?thesis
    unfolding json_loads_def
    by (simp add: d skip_ws_stop) (simp add: skip_ws_def)
qed

lemma encodable_hexdigest: "encodable (hexdigest s)"
  by (rule encodable_ascii) (auto dest!: hexdigest_lower simp: lower_hex_def)

lemma encodable_strftime: "encodable (strftime t)"
  by (rule encodable_ascii) (auto dest!: strftime_chars)

lemma strftime_shape: "is_ymd_hms (strftime t)"
proof -
  have "is_digit (48 + x mod 10)" for x :: nat
  proof -
    have "x mod 10 < 10" by simp
    then show ?thesis unfolding is_digit_def by linarith
  qed
  then show ?thesis
    by (simp add: strftime_def zpad_2 zpad_4 ustr_of_def is_ymd_hms_def)
qed

lemma payload_roundtrip:
  assumes "encodable h" "encodable a" "encodable ev"
  shows "json_loads (json_dumps (verification_data h a ev t)) = Some (verification_data h a ev t)"
proof (rule json_roundtrip)
  fix kv
  assume "kv \<in> set (verification_data h a ev t)"
  then show "encodable (fst kv) \<and> encodable (snd kv)"
    using assms encodable_strftime [of t]
    by (auto simp: verification_data_def) (simp_all add: encodable_def scalar_def ustr_of_def)
qed

section \<open>Properties of the file system\<close>

lemma rstrip_sep_keep: "s \<noteq> [] \<Longrightarrow> last s \<noteq> 47 \<Longrightarrow> rstrip_sep s = s"
  by (cases s rule: rev_cases) (simp_all add: rstrip_sep_def)

lemma rstrip_sep_snoc: "rstrip_sep (s @ [47]) = rstrip_sep s"
  by (simp add: rstrip_sep_def)

lemma rstrip_sep_length: "length (rstrip_sep s) \<le> length s"
  by (simp add: rstrip_sep_def) (metis length_dropWhile_le length_rev)

lemma strip_dir_length: "length (strip_dir s) \<le> length s"
  by (simp add: strip_dir_def rstrip_sep_length)

lemma head_of_path:
  "47 \<notin> set f \<Longrightarrow> rev (dropWhile (\<lambda>c. c \<noteq> 47) (rev (x @ 47 # f))) = x @ [47]"
proof -
  assume "47 \<notin> set f"
  then have "dropWhile (\<lambda>c. c \<noteq> 47) (rev f @ 47 # rev x) = 47 # rev x"
    by (subst dropWhile_append2) auto
  then show ?thesis by simp
qed

lemma dirname_join:
  assumes "d \<noteq> []" and "f \<noteq> []" and "47 \<notin> set f"
  shows "dirname (os_path_join d f) = strip_dir d"
proof (cases "last d = 47")
  case True
  with assms(1) obtain x where d: "d = x @ [47]"
    by (metis append_butlast_last_id)
  have "hd f \<noteq> 47" using assms(2,3) by (cases f) auto
  then have "os_path_join d f = x @ 47 # f"
    using True d by (simp add: os_path_join_def)
  then show ?thesis
    using head_of_path [OF assms(3), of x] d by (simp add: dirname_def)
next
  case False
  have "hd f \<noteq> 47" using assms(2,3) by (cases f) auto
  then have "os_path_join d f = d @ 47 # f"
    using False assms(1) by (simp add: os_path_join_def)
  then have "dirname (os_path_join d f) = strip_dir (d @ [47])"
    using head_of_path [OF assms(3), of d] by (simp add: dirname_def)
  moreover have "\<not> list_all (\<lambda>c. c = 47) d"
    using False assms(1) by (auto simp: list_all_iff)
  ultimately show ?thesis
    by (simp add: strip_dir_def rstrip_sep_snoc)
qed

lemma file_name_no_slash: "47 \<notin> set (file_name u a p)"
  using safe_name_no_slash [of u a]
  by (auto simp: file_name_def extension_def ustr_of_def)

lemma file_name_nonempty: "file_name u a p \<noteq> []"
  by (simp add: file_name_def extension_def ustr_of_def)

lemma dirname_output_path:
  "d \<noteq> [] \<Longrightarrow> dirname (output_path u d a p) = strip_dir d"
  unfolding output_path_def
  by (rule dirname_join) (simp_all add: file_name_no_slash file_name_nonempty)

lemma output_path_longer: "length d < length (output_path u d a p)"
  using file_name_nonempty [of u a p] file_name_not_absolute [of u a p]
  by (cases "file_name u a p") (auto simp: output_path_def os_path_join_def)

lemma ancestors_length: "x \<in> set (ancestors d) \<Longrightarrow> length x \<le> length d"
proof -
  assume "x \<in> set (ancestors d)"
  then obtain i where "x = strip_dir (take (Suc i) d)"
    by (auto simp: ancestors_def)
  then show ?thesis
    using strip_dir_length [of "take (Suc i) d"] by simp
qed

lemma output_path_not_in_chain:
  "output_path u d a p \<notin> set (ancestors d @ [strip_dir d])"
proof
  assume "output_path u d a p \<in> set (ancestors d @ [strip_dir d])"
  then have "length (output_path u d a p) \<le> length d"
    using ancestors_length [of "output_path u d a p" d] strip_dir_length [of d] by auto
  with output_path_longer [of d u a p] show False by simp
qed

lemma makedirs_Inr:
  assumes "makedirs e p w = Inr w1"
  shows "w1 = w\<lparr>dirs := dirs w \<union> set (ancestors p @ [strip_dir p])\<rparr>" and "p \<noteq> []"
  using assms by (auto simp: makedirs_def Let_def split: if_splits)

lemma makedirs_returns:
  assumes "p \<noteq> []"
    and "\<And>d. d \<in> set (ancestors p @ [strip_dir p]) \<Longrightarrow>
           files w d = None \<and> (d \<in> dirs w \<or> writable e d)"
  shows "makedirs e p w = Inr (w\<lparr>dirs := dirs w \<union> set (ancestors p @ [strip_dir p])\<rparr>)"
proof -
  have 1: "\<not> list_ex (\<lambda>d. files w d \<noteq> None) (ancestors p)"
    using assms(2) by (auto simp: list_ex_iff)
  have 2: "files w (strip_dir p) = None"
    using assms(2) [of "strip_dir p"] by simp
  have 3: "\<not> list_ex (\<lambda>d. d \<notin> dirs w \<and> \<not> writable e d) (ancestors p @ [strip_dir p])"
    using assms(2) by (auto simp: list_ex_iff)
  show ?thesis
    using assms(1) 1 2 3 by (simp add: makedirs_def Let_def del: list_ex_append)
qed

section \<open>Properties of a batch\<close>

lemma write_file_Inr:
  "write_file e p x w = Inr w2 \<Longrightarrow> w2 = w\<lparr>files := (files w)(p \<mapsto> x)\<rparr>"
  by (auto simp: write_file_def split: if_splits)

lemma store_Inr:
  assumes "(if pdf then save_as_pdf e c p w else save e c p w) = Inr w2"
  shows "\<exists>x. w2 = w\<lparr>files := (files w)(p \<mapsto> x)\<rparr>"
  using assms
  by (cases pdf) (auto simp: save_def save_as_pdf_def Let_def dest: write_file_Inr)

lemma store_returns:
  assumes "dirname p = [] \<or> dirname p \<in> dirs w" and "p \<notin> dirs w" and "writable e p"
  shows "\<exists>w2. (if pdf then save_as_pdf e c p w else save e c p w) = Inr w2"
  using assms by (auto simp: save_def save_as_pdf_def write_file_def Let_def)

lemma batch_loop_Inr:
  assumes "batch_loop e d rq pdf as acc w = (Inr rs, w')"
  shows "\<exists>new. rs = acc @ new \<and> map name new = as \<and>
           map path new = map (\<lambda>a. output_path (ucd e) d a pdf) as \<and>
           (\<forall>i < length as.
              \<exists>bs. encode (as ! i @ event_name (gen w)
                            @ isoformat (clock e (ticks w + 2 * i))) = Inr bs \<and>
                   hash (new ! i) = hexdigest (sha256 bs)) \<and>
           dom (files w') = dom (files w) \<union> set (map path new) \<and>
           dirs w' = dirs w \<and> gen w' = gen w \<and>
           ticks w' = ticks w + 2 * length as \<and> fresh w' = fresh w + length as"
  using assms
proof (induction as arbitrary: acc w)
  case Nil
  then show ?case by simp
next
  case (Cons a as)
  let ?p = "output_path (ucd e) d a pdf"
  from Cons.prems obtain c h w1 w2 where
    gc: "generate_certificate e a rq w = (Inr (c, h), w1)"
    and st: "(if pdf then save_as_pdf e c ?p w1 else save e c ?p w1) = Inr w2"
    and rec: "batch_loop e d rq pdf as (acc @ [\<lparr>name = a, hash = h, path = ?p\<rparr>]) w2
                = (Inr rs, w')"
    by (simp add: Let_def split: prod.splits sum.splits)
  from gc have w1: "gen w1 = gen w" "ticks w1 = Suc (Suc (ticks w))" "files w1 = files w"
    "dirs w1 = dirs w" "fresh w1 = Suc (fresh w)"
    by (elim generate_certificate_InrE, simp)+
  from store_Inr [OF st] obtain x where w2: "w2 = w1\<lparr>files := (files w1)(?p \<mapsto> x)\<rparr>"
    by blast
  from render_hash [OF gc] obtain bs where
    bs: "encode (a @ event_name (gen w) @ isoformat (clock e (ticks w))) = Inr bs"
      "h = hexdigest (sha256 bs)"
    by blast
  from Cons.IH [OF rec] obtain new where
    new: "rs = (acc @ [\<lparr>name = a, hash = h, path = ?p\<rparr>]) @ new" "map name new = as"
      "map path new = map (\<lambda>a. output_path (ucd e) d a pdf) as"
      "\<forall>i < length as.
              \<exists>bs. encode (as ! i @ event_name (gen w2)
                            @ isoformat (clock e (ticks w2 + 2 * i))) = Inr bs \<and>
                   hash (new ! i) = hexdigest (sha256 bs)"
      "dom (files w') = dom (files w2) \<union> set (map path new)"
      "dirs w' = dirs w2" "gen w' = gen w2"
      "ticks w' = ticks w2 + 2 * length as" "fresh w' = fresh w2 + length as"
    by blast
  let ?new = "\<lparr>name = a, hash = h, path = ?p\<rparr> # new"
  have hashes: "\<exists>bs. encode ((a # as) ! i @ event_name (gen w)
                            @ isoformat (clock e (ticks w + 2 * i))) = Inr bs \<and>
                   hash (?new ! i) = hexdigest (sha256 bs)"
    if "i < length (a # as)" for i
  proof (cases i)
    case 0
    with bs show ?thesis by simp
  next
    case (Suc j)
    with that have "j < length as" by simp
    with new(4) w1 w2 Suc show ?thesis by simp
  qed
  have "rs = acc @ ?new" using new(1) by simp
  moreover have "map name ?new = a # as" using new(2) by simp
  moreover have "map path ?new = map (\<lambda>a. output_path (ucd e) d a pdf) (a # as)"
    using new(3) by simp
  moreover have "dom (files w') = dom (files w) \<union> set (map path ?new)"
    using new(5) w1 w2 by auto
  moreover have "dirs w' = dirs w \<and> gen w' = gen w \<and>
      ticks w' = ticks w + 2 * length (a # as) \<and> fresh w' = fresh w + length (a # as)"
    using new(6-9) w1 w2 by simp
  ultimately show ?case
    by (intro exI [of _ ?new]) (use hashes in simp)
qed

lemma batch_loop_returns:
  assumes "template (gen w) < fresh w"
    and "d \<noteq> []" and "strip_dir d \<in> dirs w"
    and "encodable (event_name (gen w))"
    and "0 < qr_size rq"
    and "\<And>h. draw_ok e (mode (heap w (template (gen w)))) (snd (fst (load_fonts e rq w)))
               (hash_display h) (text_color rq)"
    and "\<And>a. a \<in> set as \<Longrightarrow>
           encodable a \<and>
           draw_ok e (mode (heap w (template (gen w)))) (fst (fst (load_fonts e rq w))) a
             (text_color rq) \<and>
           qr_accepts e (132 + 12 * (length a + length (event_name (gen w)))) \<and>
           output_path (ucd e) d a pdf \<notin> dirs w \<and>
           writable e (output_path (ucd e) d a pdf)"
  shows "\<exists>rs w'. batch_loop e d rq pdf as acc w = (Inr rs, w')"
  using assms
proof (induction as arbitrary: acc w)
  case Nil
  then show ?case by simp
next
  case (Cons a as)
  let ?p = "output_path (ucd e) d a pdf"
  from Cons.prems(7) [of a] have a:
    "encodable a"
    "draw_ok e (mode (heap w (template (gen w)))) (fst (fst (load_fonts e rq w))) a
       (text_color rq)"
    "qr_accepts e (132 + 12 * (length a + length (event_name (gen w))))"
    "?p \<notin> dirs w" "writable e ?p"
    by simp_all
  have "encodable (a @ event_name (gen w))"
    using a(1) Cons.prems(4) by (simp add: encodable_append)
  from generate_certificate_returns [OF this a(2) Cons.prems(6) a(3) Cons.prems(5)]
  obtain c h w1 where gc: "generate_certificate e a rq w = (Inr (c, h), w1)"
    by blast
  from gc have w1: "gen w1 = gen w" "dirs w1 = dirs w" "fresh w1 = Suc (fresh w)"
    by (elim generate_certificate_InrE, simp)+
  have tpl: "heap w1 (template (gen w)) = heap w (template (gen w))"
    using gc Cons.prems(1) by (elim generate_certificate_InrE) simp
  have "dirname ?p = strip_dir d"
    using Cons.prems(2) by (rule dirname_output_path)
  with Cons.prems(3) a(4,5) w1 obtain w2 where
    st: "(if pdf then save_as_pdf e c ?p w1 else save e c ?p w1) = Inr w2"
    using store_returns [of ?p w1 e pdf c] by auto
  from store_Inr [OF st] obtain x where w2: "w2 = w1\<lparr>files := (files w1)(?p \<mapsto> x)\<rparr>"
    by blast
  have f: "fst (load_fonts e rq w2) = fst (load_fonts e rq w)"
    by (rule load_fonts_fst)
  have "\<exists>rs w'. batch_loop e d rq pdf as (acc @ [\<lparr>name = a, hash = h, path = ?p\<rparr>]) w2
          = (Inr rs, w')"
  proof (rule Cons.IH)
    show "template (gen w2) < fresh w2"
      using Cons.prems(1) w1 w2 by simp
    show "d \<noteq> []" by (rule Cons.prems(2))
    show "strip_dir d \<in> dirs w2"
      using Cons.prems(3) w1 w2 by simp
    show "encodable (event_name (gen w2))"
      using Cons.prems(4) w1 w2 by simp
    show "0 < qr_size rq" by (rule Cons.prems(5))
    show "draw_ok e (mode (heap w2 (template (gen w2)))) (snd (fst (load_fonts e rq w2)))
            (hash_display h') (text_color rq)" for h'
      using Cons.prems(6) [of h'] w1 w2 tpl f by simp
    show "encodable b \<and>
           draw_ok e (mode (heap w2 (template (gen w2)))) (fst (fst (load_fonts e rq w2))) b
             (text_color rq) \<and>
           qr_accepts e (132 + 12 * (length b + length (event_name (gen w2)))) \<and>
           output_path (ucd e) d b pdf \<notin> dirs w2 \<and>
           writable e (output_path (ucd e) d b pdf)"
      if "b \<in> set as" for b
      using Cons.prems(7) [of b] that w1 w2 tpl f by simp
  qed
  with gc st show ?case by (simp add: Let_def)
qed

lemma batch_generate_returns:
  assumes "batch_ready e as d rq pdf w"
  shows "\<exists>rs w'. batch_generate e as d rq pdf w = (Inr rs, w')"
proof -
  let ?chain = "ancestors d @ [strip_dir d]"
  let ?w1 = "w\<lparr>dirs := dirs w \<union> set ?chain\<rparr>"
  from assms have d: "d \<noteq> []"
    and chain: "\<And>x. x \<in> set ?chain \<Longrightarrow> files w x = None \<and> (x \<in> dirs w \<or> writable e x)"
    by (auto simp: batch_ready_def)
  from makedirs_returns [OF d chain] have mk: "makedirs e d w = Inr ?w1" by simp
  have f: "fst (load_fonts e rq ?w1) = fst (load_fonts e rq w)"
    by (rule load_fonts_fst)
  have "\<exists>rs w'. batch_loop e d rq pdf as [] ?w1 = (Inr rs, w')"
  proof (rule batch_loop_returns)
    show "template (gen ?w1) < fresh ?w1" using assms by (simp add: batch_ready_def)
    show "d \<noteq> []" by (rule d)
    show "strip_dir d \<in> dirs ?w1" by simp
    show "encodable (event_name (gen ?w1))" using assms by (simp add: batch_ready_def)
    show "0 < qr_size rq" using assms by (simp add: batch_ready_def)
    show "draw_ok e (mode (heap ?w1 (template (gen ?w1)))) (snd (fst (load_fonts e rq ?w1)))
            (hash_display h) (text_color rq)" for h
      using assms f by (simp add: batch_ready_def)
    show "encodable a \<and>
           draw_ok e (mode (heap ?w1 (template (gen ?w1)))) (fst (fst (load_fonts e rq ?w1))) a
             (text_color rq) \<and>
           qr_accepts e (132 + 12 * (length a + length (event_name (gen ?w1)))) \<and>
           output_path (ucd e) d a pdf \<notin> dirs ?w1 \<and>
           writable e (output_path (ucd e) d a pdf)"
      if "a \<in> set as" for a
      using assms that f output_path_not_in_chain [of "ucd e" d a pdf]
      by (simp add: batch_ready_def)
  qed
  with mk show ?thesis by (simp add: batch_generate_def)
qed

lemma batch_generate_Inr:
  assumes "batch_generate e as d rq pdf w = (Inr rs, w')"
  obtains w1 where "makedirs e d w = Inr w1" "batch_loop e d rq pdf as [] w1 = (Inr rs, w')"
  using assms by (auto simp: batch_generate_def split: sum.splits)

lemma sample_chain:
  "ancestors (ustr_of ''temp/generated'') @ [strip_dir (ustr_of ''temp/generated'')]
     = [ustr_of ''temp'', ustr_of ''temp/generated'']"
  by (simp add: ancestors_def ustr_of_def upt_rec strip_dir_def rstrip_sep_def)


lemma sample_batch_ready:
  assumes "\<And>a. a \<in> set as \<Longrightarrow> encodable a \<and> length a \<le> 100"
  shows "batch_ready sample_env as (ustr_of ''temp/generated'') sample_request pdf sample_world"
proof -
  have q: "qr_accepts sample_env (132 + 12 * (length a + length (event_name (gen sample_world))))"
    if "a \<in> set as" for a
    using assms [OF that] by (intro sample_qr_accepts) (simp add: sample_world_def ustr_of_def)
  have chain: "\<forall>d \<in> set (ancestors (ustr_of ''temp/generated'')
        @ [strip_dir (ustr_of ''temp/generated'')]).
      files sample_world d = None \<and> (d \<in> dirs sample_world \<or> writable sample_env d)"
    unfolding sample_chain by (simp add: sample_world_def sample_env_def ustr_of_def)
  have ev: "encodable (event_name (gen sample_world))"
    by (simp add: sample_world_def encodable_def scalar_def ustr_of_def)
  have rest: "template (gen sample_world) < fresh sample_world"
    "ustr_of ''temp/generated'' \<noteq> []" "0 < qr_size sample_request"
    "dirs sample_world = {}"
    by (simp_all add: sample_world_def sample_request_def ustr_of_def)
  show ?thesis
    unfolding batch_ready_def
    using assms q chain ev rest by (simp add: sample_env_def)
qed

lemma init_Inr:
  assumes "init p ev w0 = Inr w"
  shows "\<exists>im. files w0 p = Some (ImageFile im) \<and>
           w = w0\<lparr>heap := (heap w0)(fresh w0 := im), fresh := Suc (fresh w0),
                  gen := \<lparr>template = fresh w0, event_name = ev, template_width = width im,
                          template_height = height im\<rparr>\<rparr>"
  using assms
  by (auto simp: init_def image_open_def alloc_def split: option.splits file_data.splits)

lemma init_consistent: "init p ev w0 = Inr w \<Longrightarrow> consistent w \<and> event_name (gen w) = ev"
  by (drule init_Inr) (auto simp: consistent_def)

lemma init_boot:
  "init (ustr_of ''template.png'') (ustr_of ''GDG Basra Event'') boot_world = Inr sample_world"
  by (simp add: init_def image_open_def alloc_def boot_world_def sample_world_def ustr_of_def
      template_image_def fun_upd_idem_iff)

text \<open>The model of SHA-256 on the test vector \<open>abc\<close> of the standard.\<close>

lemma sha256_abc:
  "hexdigest (sha256 [97, 98, 99])
     = ustr_of ''ba7816bf8f01cfea414140de5dae2223b00361a396177a9cb410ff61f20015ad''"
  by code_simp





section \<open>The properties that the specification states\<close>

text \<open>
  C1 as the specification states it, at its own example: the name \<open>J\<ouml>hn/Doe*1\<close>
  does not give the stem \<open>J_hn_Doe_1\<close>. The letter U+00F6 is alphanumeric for
  \<open>str.isalnum\<close> and is kept, so the stem is \<open>J\<ouml>hn_Doe_1\<close>.
\<close>

theorem sanitize_example_counterexample:
  "safe_name latin1_only john_doe \<noteq> ustr_of ''J_hn_Doe_1'' \<and>
   safe_name latin1_only john_doe = [74, 246, 104, 110, 95, 68, 111, 101, 95, 49]"
  by (simp add: safe_name_Cons safe_name_Nil john_doe_def keeps_def isalnum_def ustr_of_def)

text \<open>
  C1, amended: the stem of the output file has one character for each character of the
  attendee name, in order: the character itself when it is alphanumeric in the sense of
  \<open>str.isalnum\<close> (letters and digits of every script, not only ASCII), a space, a
  hyphen or an underscore, and an underscore otherwise. The file name is the stem
  followed by \<open>.pdf\<close> or \<open>.png\<close>, and the path is the output directory joined with
  it; these are the paths that a batch returns and writes. The name \<open>J\<ouml>hn/Doe*1\<close>
  gives \<open>J\<ouml>hn_Doe_1\<close>, \<open>Ahmad\<close> gives \<open>Ahmad\<close>, and two names with the same stem
  give the same path: nothing tells them apart.
\<close>

theorem filename_derivation:
  "length (safe_name (ucd e) a) = length a \<and>
   (\<forall>i < length a.
      safe_name (ucd e) a ! i =
        (if isalnum (ucd e) (a ! i) \<or> a ! i = 32 \<or> a ! i = 45 \<or> a ! i = 95
         then a ! i else 95)) \<and>
   file_name (ucd e) a True = safe_name (ucd e) a @ ustr_of ''.pdf'' \<and>
   file_name (ucd e) a False = safe_name (ucd e) a @ ustr_of ''.png'' \<and>
   output_path (ucd e) d a pdf = os_path_join d (file_name (ucd e) a pdf) \<and>
   safe_name (ucd e) john_doe = [74, 246, 104, 110, 95, 68, 111, 101, 95, 49] \<and>
   safe_name (ucd e) (ustr_of ''Ahmad'') = ustr_of ''Ahmad'' \<and>
   (safe_name (ucd e) a = safe_name (ucd e) b \<longrightarrow>
      output_path (ucd e) d a pdf = output_path (ucd e) d b pdf) \<and>
   (\<forall>rs w'. batch_generate e as d rq pdf w = (Inr rs, w') \<longrightarrow>
      map path rs = map (\<lambda>x. os_path_join d (safe_name (ucd e) x @ extension pdf)) as \<and>
      dom (files w') = dom (files w) \<union> set (map path rs))"
proof -
  let ?u = "ucd e"
  have nth: "\<forall>i < length a.
      safe_name ?u a ! i =
        (if isalnum ?u (a ! i) \<or> a ! i = 32 \<or> a ! i = 45 \<or> a ! i = 95 then a ! i else 95)"
    using safe_name_nth [of _ a ?u] by (simp add: keeps_def)
  have john: "safe_name ?u john_doe = [74, 246, 104, 110, 95, 68, 111, 101, 95, 49]"
    by (simp add: safe_name_Cons safe_name_Nil john_doe_def keeps_def isalnum_def)
  have ahmad: "safe_name ?u (ustr_of ''Ahmad'') = ustr_of ''Ahmad''"
    by (simp add: safe_name_Cons safe_name_Nil keeps_def isalnum_def ustr_of_def)
  have same: "safe_name ?u a = safe_name ?u b \<longrightarrow> output_path ?u d a pdf = output_path ?u d b pdf"
    by (simp add: output_path_def file_name_def)
  have batch: "map path rs = map (\<lambda>x. os_path_join d (safe_name ?u x @ extension pdf)) as \<and>
      dom (files w') = dom (files w) \<union> set (map path rs)"
    if r: "batch_generate e as d rq pdf w = (Inr rs, w')" for rs w'
  proof -
    from r obtain w1 where mk: "makedirs e d w = Inr w1"
      and loop: "batch_loop e d rq pdf as [] w1 = (Inr rs, w')"
      by (rule batch_generate_Inr)
    from makedirs_Inr(1) [OF mk] have "files w1 = files w" by simp
    with batch_loop_Inr [OF loop] show ?thesis
      by (auto simp: output_path_def file_name_def)
  qed
  have names: "length (safe_name ?u a) = length a \<and>
      file_name ?u a True = safe_name ?u a @ ustr_of ''.pdf'' \<and>
      file_name ?u a False = safe_name ?u a @ ustr_of ''.png'' \<and>
      output_path ?u d a pdf = os_path_join d (file_name ?u a pdf)"
    by (simp add: safe_name_length file_name_def extension_def output_path_def)
  from names nth john ahmad same batch show ?thesis
    by (intro conjI allI impI) blast+
qed

text \<open>
  The names \<open>a/b\<close> and \<open>a*b\<close> have the stem \<open>a_b\<close>, so a batch of the two returns the
  path \<open>temp/generated/a_b.png\<close> twice.
\<close>

theorem filename_derivation_witness:
  "safe_name (ucd sample_env) (ustr_of ''a/b'') ! 1 = 95 \<and>
   safe_name (ucd sample_env) (ustr_of ''a/b'') = safe_name (ucd sample_env) (ustr_of ''a*b'') \<and>
   (\<exists>rs w'.
      batch_generate sample_env [ustr_of ''a/b'', ustr_of ''a*b''] (ustr_of ''temp/generated'')
        sample_request False sample_world = (Inr rs, w') \<and>
      map path rs = [ustr_of ''temp/generated/a_b.png'', ustr_of ''temp/generated/a_b.png''])"
proof -
  let ?as = "[ustr_of ''a/b'', ustr_of ''a*b'']"
  let ?d = "ustr_of ''temp/generated''"
  note T = filename_derivation [where e = sample_env and a = "ustr_of ''a/b''"
      and b = "ustr_of ''a*b''" and d = ?d and pdf = False and as = ?as
      and rq = sample_request and w = sample_world]
  have stems: "safe_name (ucd sample_env) (ustr_of ''a/b'') = ustr_of ''a_b''"
    "safe_name (ucd sample_env) (ustr_of ''a*b'') = ustr_of ''a_b''"
    by (simp_all add: ustr_of_def safe_name_Cons safe_name_Nil keeps_def isalnum_def)
  have "batch_ready sample_env ?as ?d sample_request False sample_world"
    by (rule sample_batch_ready)
      (auto simp: ustr_of_def encodable_def scalar_def)
  from batch_generate_returns [OF this] obtain rs w' where
    r: "batch_generate sample_env ?as ?d sample_request False sample_world = (Inr rs, w')"
    by blast
  from T [THEN conjunct2, THEN conjunct2, THEN conjunct2, THEN conjunct2, THEN conjunct2,
      THEN conjunct2, THEN conjunct2, THEN conjunct2, rule_format, OF r]
  have "map path rs = [ustr_of ''temp/generated/a_b.png'', ustr_of ''temp/generated/a_b.png'']"
    by (simp add: stems) (simp add: os_path_join_def extension_def ustr_of_def)
  with r stems show ?thesis
    by (intro conjI exI [of _ rs] exI [of _ w']) (simp_all add: ustr_of_def)
qed

text \<open>
  C2: the image that \<open>generate_certificate\<close> returns has the width and the height of
  the template, whatever the name, the positions, the font, the colour and the size of
  the QR code are; the picture underneath the drawn layers is the template's. For a
  generator as \<open>__init__\<close> leaves it these are the attributes \<open>template_width\<close> and
  \<open>template_height\<close>.
\<close>

theorem render_keeps_template_size:
  assumes "generate_certificate e a rq w = (Inr (c, h), w')"
  shows "width (heap w' c) = width (heap w (template (gen w))) \<and>
         height (heap w' c) = height (heap w (template (gen w))) \<and>
         base_layer (pixels (heap w' c)) = Some (pixels (heap w (template (gen w)))) \<and>
         (consistent w \<longrightarrow>
            width (heap w' c) = template_width (gen w) \<and>
            height (heap w' c) = template_height (gen w) \<and> consistent w')"
  using assms
  by (elim generate_certificate_InrE) (simp add: consistent_def)

text \<open>The certificate of \<open>Alice\<close> on the 1200 by 800 template.\<close>

theorem render_keeps_template_size_witness:
  "consistent sample_world \<and>
   (\<exists>c h w'.
      generate_certificate sample_env (ustr_of ''Alice'') sample_request sample_world
        = (Inr (c, h), w') \<and>
      width (heap w' c) = 1200 \<and> height (heap w' c) = 800 \<and> consistent w')"
proof -
  have cs: "consistent sample_world"
    by (simp add: consistent_def sample_world_def template_image_def)
  obtain c h w' where
    r: "generate_certificate sample_env (ustr_of ''Alice'') sample_request sample_world
          = (Inr (c, h), w')"
    using sample_render [of sample_request] by (auto simp: sample_request_def)
  from render_keeps_template_size [OF r] cs
  have "width (heap w' c) = 1200 \<and> height (heap w' c) = 800 \<and> consistent w'"
    by (simp add: sample_world_def template_image_def)
  with cs r show ?thesis by blast
qed

text \<open>
  C3: \<open>generate_certificate\<close> draws on a copy. Whatever the call does, and also when
  it raises, the attributes of the generator, \<open>event_name\<close> among them, are the same
  afterwards, and the template object holds the same image (size, mode and pixels). The
  certificate returned is a new object, not the template, and the picture under its
  layers is the template's. The template is an object of the store: this is so after
  \<open>__init__\<close>, and it stays so from call to call.
\<close>

theorem template_never_mutated:
  "gen (snd (generate_certificate e a rq w)) = gen w \<and>
   (template (gen w) < fresh w \<longrightarrow>
      heap (snd (generate_certificate e a rq w)) (template (gen w))
        = heap w (template (gen w)) \<and>
      template (gen w) < fresh (snd (generate_certificate e a rq w)) \<and>
      (\<forall>c h. fst (generate_certificate e a rq w) = Inr (c, h) \<longrightarrow>
         c = fresh w \<and> c \<noteq> template (gen w) \<and>
         base_layer (pixels (heap (snd (generate_certificate e a rq w)) c))
           = Some (pixels (heap w (template (gen w)))))) \<and>
   (\<forall>p ev w0. init p ev w0 = Inr w \<longrightarrow> template (gen w) < fresh w \<and> event_name (gen w) = ev)"
proof -
  have 1: "c = fresh w \<and> c \<noteq> template (gen w) \<and>
        base_layer (pixels (heap (snd (generate_certificate e a rq w)) c))
          = Some (pixels (heap w (template (gen w))))"
    if "fst (generate_certificate e a rq w) = Inr (c, h)" and "template (gen w) < fresh w"
    for c h
  proof -
    from that(1) have "generate_certificate e a rq w
        = (Inr (c, h), snd (generate_certificate e a rq w))"
      by (metis prod.collapse)
    then show ?thesis
      using that(2) by (elim generate_certificate_InrE) simp
  qed
  have 2: "template (gen w) < fresh w \<and> event_name (gen w) = ev"
    if "init p ev w0 = Inr w" for p ev w0
    using init_consistent [OF that] by (simp add: consistent_def)
  have 3: "heap (snd (generate_certificate e a rq w)) (template (gen w))
        = heap w (template (gen w)) \<and>
      template (gen w) < fresh (snd (generate_certificate e a rq w))"
    if "template (gen w) < fresh w"
    using that generate_certificate_frame [of e a rq w] by simp
  have 4: "gen (snd (generate_certificate e a rq w)) = gen w"
    using generate_certificate_frame [of e a rq w] by simp
  from 1 2 3 4 show ?thesis
    by (intro conjI allI impI) blast+
qed

text \<open>
  The example state is the one that \<open>__init__\<close> makes: the template is object 0 and
  stays as it was.
\<close>

theorem template_never_mutated_witness:
  "template (gen sample_world) < fresh sample_world \<and>
   init (ustr_of ''template.png'') (ustr_of ''GDG Basra Event'') boot_world = Inr sample_world \<and>
   heap (snd (generate_certificate sample_env alice sample_request sample_world)) 0
     = template_image \<and>
   event_name (gen (snd (generate_certificate sample_env alice sample_request sample_world)))
     = ustr_of ''GDG Basra Event'' \<and>
   (\<exists>h. fst (generate_certificate sample_env alice sample_request sample_world) = Inr (1, h))"
proof -
  note T = template_never_mutated [of sample_env alice sample_request sample_world]
  have lt: "template (gen sample_world) < fresh sample_world"
    by (simp add: sample_world_def)
  obtain c h w' where
    "generate_certificate sample_env alice sample_request sample_world = (Inr (c, h), w')"
    using sample_render_alice [of sample_request] by (auto simp: sample_request_def)
  then have r: "fst (generate_certificate sample_env alice sample_request sample_world)
      = Inr (c, h)"
    by simp
  from T [THEN conjunct2, THEN conjunct1, rule_format, OF lt, THEN conjunct2,
      THEN conjunct2, rule_format, OF r]
  have "c = 1" by (simp add: sample_world_def)
  with r have "\<exists>h. fst (generate_certificate sample_env alice sample_request sample_world)
      = Inr (1, h)"
    by blast
  with T init_boot show ?thesis
    by (simp add: sample_world_def)
qed

text \<open>
  C4: the hash that \<open>generate_hash\<close> mints is the SHA-256 digest, as 64 lowercase
  hexadecimal characters, of the UTF-8 bytes of the attendee name, the event name and
  the ISO-8601 text of one clock reading taken in the call, concatenated with nothing
  between them. It is minted for every name that has a UTF-8 encoding, the empty name
  included. The clock reading has microseconds, which \<open>isoformat\<close> prints as six
  digits behind a dot (it leaves the fraction out when the microsecond is zero).
\<close>

theorem hash_is_sha256_of_concatenation:
  "(\<forall>h. fst (generate_hash e a w) = Inr h \<longrightarrow>
      (\<exists>bs. encode (a @ event_name (gen w) @ isoformat (clock e (ticks w))) = Inr bs \<and>
            h = hexdigest (sha256 bs)) \<and>
      length h = 64 \<and> (\<forall>c \<in> set h. lower_hex c)) \<and>
   (encodable (a @ event_name (gen w)) \<longrightarrow> (\<exists>h. fst (generate_hash e a w) = Inr h)) \<and>
   (encodable (event_name (gen w)) \<longrightarrow> (\<exists>h. fst (generate_hash e [] w) = Inr h)) \<and>
   ticks (snd (generate_hash e a w)) = Suc (ticks w) \<and>
   (microsecond (clock e (ticks w)) \<noteq> 0 \<longrightarrow>
      drop 19 (isoformat (clock e (ticks w)))
        = ustr_of ''.'' @ zpad 6 (microsecond (clock e (ticks w))))"
proof -
  have minted: "\<forall>h. fst (generate_hash e a w) = Inr h \<longrightarrow>
      (\<exists>bs. encode (a @ event_name (gen w) @ isoformat (clock e (ticks w))) = Inr bs \<and>
            h = hexdigest (sha256 bs)) \<and>
      length h = 64 \<and> (\<forall>c \<in> set h. lower_hex c)"
    by (cases rule: generate_hash_cases [of a w e])
      (auto simp: hexdigest_length hexdigest_lower)
  have total: "encodable (x @ event_name (gen w)) \<longrightarrow> (\<exists>h. fst (generate_hash e x w) = Inr h)"
    for x
    using generate_hash_returns [of x w e] by auto
  have frac: "microsecond (clock e (ticks w)) \<noteq> 0 \<longrightarrow>
      drop 19 (isoformat (clock e (ticks w)))
        = ustr_of ''.'' @ zpad 6 (microsecond (clock e (ticks w)))"
    by (simp add: isoformat_def zpad_length ustr_of_def)
  show ?thesis
    using minted total [of a] total [of "[]"] frac by (simp add: generate_hash_world)
qed

text \<open>The empty name, at the first reading of the example clock.\<close>

theorem hash_is_sha256_of_concatenation_witness:
  "encodable ([] @ event_name (gen sample_world)) \<and>
   (\<exists>h. fst (generate_hash sample_env [] sample_world) = Inr h \<and> length h = 64 \<and>
        (\<forall>c \<in> set h. lower_hex c)) \<and>
   microsecond (clock coarse_env (ticks sample_world)) \<noteq> 0 \<and>
   drop 19 (isoformat (clock coarse_env (ticks sample_world))) = ustr_of ''.250000''"
proof -
  have enc: "encodable ([] @ event_name (gen sample_world))"
    by (simp add: sample_world_def encodable_def scalar_def ustr_of_def)
  with hash_is_sha256_of_concatenation [of sample_env "[]" sample_world]
  have 1: "\<exists>h. fst (generate_hash sample_env [] sample_world) = Inr h \<and> length h = 64 \<and>
        (\<forall>c \<in> set h. lower_hex c)"
    by auto
  from hash_is_sha256_of_concatenation [of coarse_env "[]" sample_world]
  have 2: "microsecond (clock coarse_env (ticks sample_world)) \<noteq> 0 \<and>
      drop 19 (isoformat (clock coarse_env (ticks sample_world))) = ustr_of ''.250000''"
    by (simp add: coarse_env_def frozen_clock_def zpad_6 ustr_of_def)
  from enc 1 2 show ?thesis by blast
qed




text \<open>
  C6 as the specification states it, for a request without a font file and the font
  size 60: the render succeeds and the hash stamp is drawn with the default font, not
  with a font of size \<open>max(12, 60 // 3) = 20\<close>.
\<close>

theorem default_font_stamp_counterexample:
  "stamp_layer (pixels (heap (snd (generate_certificate sample_env alice no_font_request
       sample_world)) 1)) =
     Some ((50, 700),
       hash_display (hexdigest (sha256
         [65, 108, 105, 99, 101, 71, 68, 71, 32, 66, 97, 115, 114, 97, 32, 69, 118, 101,
          110, 116, 50, 48, 50, 52, 45, 48, 53, 45, 49, 55, 84, 48, 57, 58, 51, 48, 58,
          48, 48])),
       DefaultFont, (0, 0, 0)) \<and>
   font_size no_font_request = 60"
proof -
  have f: "fst (load_fonts sample_env no_font_request sample_world) = (DefaultFont, DefaultFont)"
    by (rule load_fonts_default) (simp add: no_font_request_def)
  obtain c w' where
    r: "generate_certificate sample_env alice no_font_request sample_world =
     (Inr (c, hexdigest (sha256
         [65, 108, 105, 99, 101, 71, 68, 71, 32, 66, 97, 115, 114, 97, 32, 69, 118, 101,
          110, 116, 50, 48, 50, 52, 45, 48, 53, 45, 49, 55, 84, 48, 57, 58, 51, 48, 58,
          48, 48])), w')"
    using sample_render_alice [of no_font_request]
    by (auto simp: no_font_request_def sample_request_def)
  have "c = 1"
    using r by (elim generate_certificate_InrE) (simp add: sample_world_def)
  with render_layers(2) [OF r] r f show ?thesis
    by (simp add: hash_pos_def no_font_request_def sample_request_def sample_world_def)
qed

text \<open>
  C6, amended: in every render the hash stamp is the text \<open>ID: \<close> followed by the
  first 12 characters of the hash in upper case (16 characters, the last 12 of them
  from \<open>0123456789ABCDEF\<close>). It is drawn at \<open>hash_position\<close> when one is given and
  at \<open>(50, template_height - 100)\<close> otherwise, in the colour of the name. Its font is
  the font file at the size \<open>max(12, font_size // 3)\<close> (floor division) when the file
  loads at both sizes, and the built-in default font when a load fails.
\<close>

theorem hash_stamp:
  assumes "generate_certificate e a rq w = (Inr (c, h), w')"
  shows "\<exists>f. stamp_layer (pixels (heap w' c)) =
              Some (case hash_position rq of
                      Some p \<Rightarrow> p
                    | None \<Rightarrow> (50, template_height (gen w) - 100),
                    ustr_of ''ID: '' @ upper (take 12 h), f, text_color rq) \<and>
             (\<forall>p. font_path rq = Some p \<and> truetype_ok e p (font_size rq) \<and>
                  truetype_ok e p (max 12 (font_size rq div 3)) \<longrightarrow>
                f = TrueType p (max 12 (font_size rq div 3))) \<and>
             (truetype e (font_path rq) (font_size rq) = None \<or>
              truetype e (font_path rq) (max 12 (font_size rq div 3)) = None \<longrightarrow>
                f = DefaultFont) \<and>
             (\<exists>p g. name_layer (pixels (heap w' c)) = Some (p, a, g, text_color rq)) \<and>
             length (ustr_of ''ID: '' @ upper (take 12 h)) = 16 \<and>
             (\<forall>x \<in> set (upper (take 12 h)). upper_hex x)"
proof -
  let ?f = "snd (fst (load_fonts e rq w))"
  from render_hash [OF assms] have h: "length h = 64" "\<And>x. x \<in> set h \<Longrightarrow> lower_hex x"
    by (auto simp: hexdigest_length hexdigest_lower)
  have 1: "stamp_layer (pixels (heap w' c)) =
              Some (case hash_position rq of
                      Some p \<Rightarrow> p
                    | None \<Rightarrow> (50, template_height (gen w) - 100),
                    ustr_of ''ID: '' @ upper (take 12 h), ?f, text_color rq)"
    using render_layers(2) [OF assms] by (simp add: hash_pos_def hash_display_def)
  have 2: "?f = TrueType p (max 12 (font_size rq div 3))"
    if "font_path rq = Some p \<and> truetype_ok e p (font_size rq) \<and>
        truetype_ok e p (max 12 (font_size rq div 3))" for p
    using that by (simp add: load_fonts_def truetype_def)
  have 3: "?f = DefaultFont"
    if "truetype e (font_path rq) (font_size rq) = None \<or>
        truetype e (font_path rq) (max 12 (font_size rq div 3)) = None"
    using load_fonts_default [OF that, of w] by simp
  have 4: "\<exists>p g. name_layer (pixels (heap w' c)) = Some (p, a, g, text_color rq)"
    using render_layers(1) [OF assms] by blast
  have 5: "length (ustr_of ''ID: '' @ upper (take 12 h)) = 16 \<and>
      (\<forall>x \<in> set (upper (take 12 h)). upper_hex x)"
    using hash_display_shape [of h] h by (simp add: hash_display_def ustr_of_def)
  show ?thesis
    by (rule exI [of _ ?f]) (use 1 2 3 4 5 in simp)
qed

text \<open>
  The example request: font size 60, so the stamp is set in size 20 at \<open>(50, 700)\<close>.
\<close>

theorem hash_stamp_witness:
  "(\<exists>c h w'.
      generate_certificate sample_env alice sample_request sample_world = (Inr (c, h), w') \<and>
      stamp_layer (pixels (heap w' c)) =
        Some ((50, 700), ustr_of ''ID: '' @ upper (take 12 h), TrueType roboto 20, (0, 0, 0))) \<and>
   (\<exists>c h w'.
      generate_certificate sample_env alice no_font_request sample_world = (Inr (c, h), w') \<and>
      stamp_layer (pixels (heap w' c)) =
        Some ((50, 700), ustr_of ''ID: '' @ upper (take 12 h), DefaultFont, (0, 0, 0)))"
proof -
  obtain c h w' where
    r: "generate_certificate sample_env alice sample_request sample_world = (Inr (c, h), w')"
    using sample_render_alice [of sample_request] by (auto simp: sample_request_def)
  from hash_stamp [OF r]
  have 1: "stamp_layer (pixels (heap w' c)) =
        Some ((50, 700), ustr_of ''ID: '' @ upper (take 12 h), TrueType roboto 20, (0, 0, 0))"
    by (auto simp: sample_request_def sample_env_def sample_world_def)
  obtain c2 h2 w2 where
    r2: "generate_certificate sample_env alice no_font_request sample_world = (Inr (c2, h2), w2)"
    using sample_render_alice [of no_font_request]
    by (auto simp: no_font_request_def sample_request_def)
  from hash_stamp [OF r2]
  have 2: "stamp_layer (pixels (heap w2 c2)) =
        Some ((50, 700), ustr_of ''ID: '' @ upper (take 12 h2), DefaultFont, (0, 0, 0))"
    by (auto simp: no_font_request_def sample_request_def sample_world_def)
  from r 1 r2 2 show ?thesis by blast
qed

text \<open>
  C7: in every render the text put into the QR code is the JSON text of a record with
  the four fields \<open>hash\<close>, \<open>name\<close>, \<open>event\<close> and \<open>date\<close>, in this order: the hash
  is the one that the render returns, name and event are the strings of the call, and
  the date is the \<open>YYYY-MM-DD HH:MM:SS\<close> text of a clock reading of its own, the one
  after the reading that the hash was made from. Reading the text back with
  \<open>json.loads\<close> gives this record, the hash included. (The QR symbol is identified
  with the text it encodes; scanning it is not part of the program.)
\<close>

theorem qr_payload_record:
  assumes "generate_certificate e a rq w = (Inr (c, h), w')"
  shows "\<exists>txt date.
           qr_layer (pixels (heap w' c)) = Some (txt, qr_size rq, qr_size rq, qr_pos (gen w) rq) \<and>
           txt = json_dumps [(ustr_of ''hash'', h), (ustr_of ''name'', a),
                             (ustr_of ''event'', event_name (gen w)), (ustr_of ''date'', date)] \<and>
           json_loads txt = Some [(ustr_of ''hash'', h), (ustr_of ''name'', a),
                                  (ustr_of ''event'', event_name (gen w)),
                                  (ustr_of ''date'', date)] \<and>
           date = strftime (clock e (Suc (ticks w))) \<and> is_ymd_hms date \<and>
           (\<exists>bs. encode (a @ event_name (gen w) @ isoformat (clock e (ticks w))) = Inr bs \<and>
                 h = hexdigest (sha256 bs))"
proof -
  from render_hash [OF assms] obtain bs where
    bs: "encode (a @ event_name (gen w) @ isoformat (clock e (ticks w))) = Inr bs"
    and h: "h = hexdigest (sha256 bs)"
    by blast
  from bs have "encodable (a @ event_name (gen w) @ isoformat (clock e (ticks w)))"
    by (rule encode_Inr_encodable)
  then have enc: "encodable a" "encodable (event_name (gen w))"
    by (simp_all add: encodable_append)
  have "encodable h"
    unfolding h by (rule encodable_hexdigest)
  from payload_roundtrip [OF this enc, of "clock e (Suc (ticks w))"]
  have "json_loads (json_dumps (verification_data h a (event_name (gen w))
          (clock e (Suc (ticks w)))))
        = Some (verification_data h a (event_name (gen w)) (clock e (Suc (ticks w))))" .
  with render_layers(3) [OF assms] bs h strftime_shape [of "clock e (Suc (ticks w))"]
  show ?thesis
    by (simp add: verification_data_def)
qed

text \<open>
  The certificate of \<open>Alice\<close>: the second reading of the example clock is
  09:30:00.001, printed to the second.
\<close>

theorem qr_payload_record_witness:
  "\<exists>c h w'.
     generate_certificate sample_env alice sample_request sample_world = (Inr (c, h), w') \<and>
     json_loads (fst (the (qr_layer (pixels (heap w' c))))) =
       Some [(ustr_of ''hash'', h), (ustr_of ''name'', alice),
             (ustr_of ''event'', ustr_of ''GDG Basra Event''),
             (ustr_of ''date'', ustr_of ''2024-05-17 09:30:00'')]"
proof -
  obtain c h w' where
    r: "generate_certificate sample_env alice sample_request sample_world = (Inr (c, h), w')"
    using sample_render_alice [of sample_request] by (auto simp: sample_request_def)
  have "strftime (clock sample_env (Suc (ticks sample_world))) = ustr_of ''2024-05-17 09:30:00''"
    by (simp add: sample_env_def sample_world_def ticking_clock_def strftime_def zpad_2 zpad_4
        ustr_of_def)
  with qr_payload_record [OF r] r show ?thesis
    by (auto simp: sample_world_def)
qed







end
